theory Spec2Isabelle
  imports Main "HOL-Library.Word"
begin

section \<open>Values carried by log fields\<close>

text \<open>
  The package \<open>rlog\<close> receives its fields as \<open>...any\<close>. The type switches of
  \<open>addEventEntry\<close>, \<open>addContext\<close> and \<open>addTraceBufEntry\<close> distinguish the dynamic types
  below; \<open>VOther\<close> stands for a value of any type outside the enumerated set (its carrier
  \<open>'o\<close> is left open) and \<open>VNil\<close> for the nil interface, which a type switch sends to
  \<open>default\<close> as well. Floats are kept as their IEEE bit patterns, \<open>int\<close> and \<open>uint\<close> as
  64-bit words.
\<close>

type_synonym byte = "8 word"

type_synonym stack = "nat list"

record go_error =
  Error :: string
  errs_Stack :: stack

record go_time =
  Unix :: "64 word"
  Nanosecond :: "32 word"

datatype 'o gval =
    VNil
  | VErr go_error
  | VStr string
  | VBool bool
  | VTime go_time
  | VDur "64 word"
  | VUUID "byte list"
  | VOther 'o
  | VInt8 "8 word"
  | VInt16 "16 word"
  | VInt32 "32 word"
  | VInt64 "64 word"
  | VInt "64 word"
  | VUint8 "8 word"
  | VUint16 "16 word"
  | VUint32 "32 word"
  | VUint64 "64 word"
  | VUint "64 word"
  | VFloat32 "32 word"
  | VFloat64 "64 word"

text \<open>The dynamic type of a value, as a type switch sees it.\<close>

datatype gtype =
    TNil | TError | TString | TBool | TTime | TDuration | TUUID | TOther
  | TInt8 | TInt16 | TInt32 | TInt64 | TInt
  | TUint8 | TUint16 | TUint32 | TUint64 | TUint
  | TFloat32 | TFloat64

fun type_of :: "'o gval \<Rightarrow> gtype" where
  "type_of VNil = TNil"
| "type_of (VErr _) = TError"
| "type_of (VStr _) = TString"
| "type_of (VBool _) = TBool"
| "type_of (VTime _) = TTime"
| "type_of (VDur _) = TDuration"
| "type_of (VUUID _) = TUUID"
| "type_of (VOther _) = TOther"
| "type_of (VInt8 _) = TInt8"
| "type_of (VInt16 _) = TInt16"
| "type_of (VInt32 _) = TInt32"
| "type_of (VInt64 _) = TInt64"
| "type_of (VInt _) = TInt"
| "type_of (VUint8 _) = TUint8"
| "type_of (VUint16 _) = TUint16"
| "type_of (VUint32 _) = TUint32"
| "type_of (VUint64 _) = TUint64"
| "type_of (VUint _) = TUint"
| "type_of (VFloat32 _) = TFloat32"
| "type_of (VFloat64 _) = TFloat64"

text \<open>The unchecked assertion \<open>x.(string)\<close>: \<open>None\<close> is the run-time panic.\<close>

fun assert_string :: "'o gval \<Rightarrow> string option" where
  "assert_string (VStr s) = Some s"
| "assert_string _ = None"

datatype panic = TypeAssertion | NilDereference | IndexOutOfRange

section \<open>Slices and their backing arrays\<close>

text \<open>
  A Go slice is a header (array, offset into it, length, capacity); several headers may
  share one backing array. The store is the list of all arrays, addressed by position.
  A slice of capacity 0, such as the nil slice, is never read and never appended in
  place, and needs no array.
\<close>

record slice =
  s_array :: nat
  s_off :: nat
  s_len :: nat
  s_cap :: nat

type_synonym 'o heap = "'o gval list list"

definition wf_slice :: "'o heap \<Rightarrow> slice \<Rightarrow> bool" where
  "wf_slice h s \<longleftrightarrow>
     s_len s \<le> s_cap s \<and>
     (s_cap s = 0 \<or> (s_array s < length h \<and> s_off s + s_cap s \<le> length (h ! s_array s)))"

definition view :: "'o heap \<Rightarrow> slice \<Rightarrow> 'o gval list" where
  "view h s =
     (if s_array s < length h then take (s_len s) (drop (s_off s) (h ! s_array s)) else [])"

text \<open>
  \<open>append(s, xs...)\<close>: when the capacity suffices the new elements are written into the
  backing array of \<open>s\<close> behind its length; otherwise a fresh array is allocated, with
  \<open>spare\<close> unused cells behind the elements (how many is the run-time's growth policy).
\<close>

definition append_slice :: "nat \<Rightarrow> 'o heap \<Rightarrow> slice \<Rightarrow> 'o gval list \<Rightarrow> slice \<times> 'o heap" where
  "append_slice spare h s xs =
     (let n = s_len s + length xs in
      if n \<le> s_cap s then
        (let a = h ! s_array s;
             at = s_off s + s_len s;
             a' = take at a @ xs @ drop (at + length xs) a
         in (s\<lparr>s_len := n\<rparr>, h[s_array s := a']))
      else
        (\<lparr>s_array = length h, s_off = 0, s_len = n, s_cap = n + spare\<rparr>,
         h @ [view h s @ xs @ replicate spare VNil]))"

section \<open>The field-pair normalizer\<close>

definition pairs :: "slice \<Rightarrow> slice" where
  "pairs keysAndValues =
     (let fields = keysAndValues;
          num = s_len fields
      in if num mod 2 = 1 then fields\<lparr>s_len := num - 1\<rparr> else fields)"

section \<open>The reserved-key guard\<close>

definition InternalKeyPrefix :: string where
  "InternalKeyPrefix = ''encore_''"

text \<open>\<open>strings.HasPrefix(key, InternalKeyPrefix)\<close>.\<close>

definition reserved :: "string \<Rightarrow> bool" where
  "reserved key \<longleftrightarrow> take (length InternalKeyPrefix) key = InternalKeyPrefix"

section \<open>The collaborators\<close>

text \<open>
  The structured sink (zerolog) is kept as the sequence of typed setter calls it
  receives: a \<open>zerolog.Context\<close> is the list of calls that built it, an event carries the
  context of the logger it was created from and the calls made on the event itself, and
  \<open>Msg\<close> hands the event with its message to the output.
\<close>

datatype 'o sink_call =
    S_AnErr string go_error
  | S_Str string string
  | S_Bool string bool
  | S_Time string go_time
  | S_Dur string "64 word"
  | S_Interface string "'o gval"
  | S_Int8 string "8 word"
  | S_Int16 string "16 word"
  | S_Int32 string "32 word"
  | S_Int64 string "64 word"
  | S_Int string "64 word"
  | S_Uint8 string "8 word"
  | S_Uint16 string "16 word"
  | S_Uint32 string "32 word"
  | S_Uint64 string "64 word"
  | S_Uint string "64 word"
  | S_Float32 string "32 word"
  | S_Float64 string "64 word"

fun sink_key :: "'o sink_call \<Rightarrow> string" where
  "sink_key (S_AnErr k _) = k"
| "sink_key (S_Str k _) = k"
| "sink_key (S_Bool k _) = k"
| "sink_key (S_Time k _) = k"
| "sink_key (S_Dur k _) = k"
| "sink_key (S_Interface k _) = k"
| "sink_key (S_Int8 k _) = k"
| "sink_key (S_Int16 k _) = k"
| "sink_key (S_Int32 k _) = k"
| "sink_key (S_Int64 k _) = k"
| "sink_key (S_Int k _) = k"
| "sink_key (S_Uint8 k _) = k"
| "sink_key (S_Uint16 k _) = k"
| "sink_key (S_Uint32 k _) = k"
| "sink_key (S_Uint64 k _) = k"
| "sink_key (S_Uint k _) = k"
| "sink_key (S_Float32 k _) = k"
| "sink_key (S_Float64 k _) = k"

datatype logLevel = levelTrace | levelDebug | levelInfo | levelWarn | levelError

fun level_byte :: "logLevel \<Rightarrow> byte" where
  "level_byte levelTrace = 0"
| "level_byte levelDebug = 1"
| "level_byte levelInfo = 2"
| "level_byte levelWarn = 3"
| "level_byte levelError = 4"

record 'o event =
  ev_level :: logLevel
  ev_context :: "'o sink_call list"
  ev_fields :: "'o sink_call list"

text \<open>\<open>logger.Debug()\<close>, \<open>logger.Info()\<close>, ...: a fresh event of a logger with context \<open>c\<close>.\<close>

definition new_event :: "logLevel \<Rightarrow> 'o sink_call list \<Rightarrow> 'o event" where
  "new_event lvl c = \<lparr>ev_level = lvl, ev_context = c, ev_fields = []\<rparr>"

text \<open>
  A \<open>trace.Buffer\<close> is append-only; it is kept as the sequence of the write calls made
  on it, in order. How each call is laid out in bytes belongs to the buffer, not to this
  package.
\<close>

datatype tb_call =
    tb_Bytes "byte list"
  | tb_UVarint "64 word"
  | tb_Byte byte
  | tb_String string
  | tb_Err "go_error option"
  | tb_Stack stack
  | tb_Bool bool
  | tb_Time go_time
  | tb_Int64 "64 word"
  | tb_ByteString "byte list"
  | tb_Varint "64 word"
  | tb_Float32 "32 word"
  | tb_Float64 "64 word"

type_synonym buffer = "tb_call list"

datatype trace_kind = LogMessage

type_synonym trace_log = "(trace_kind \<times> buffer) list"

record request =
  SpanID :: "byte list"

text \<open>
  \<open>reqtrack.Current\<close>: the request and the trace log of the running execution, either of
  which may be nil, and its event counter (an unsigned 32-bit integer, which \<open>doLog\<close>
  widens to \<open>uint64\<close>).
\<close>

record current =
  Req :: "request option"
  Trace :: "trace_log option"
  Goctr :: "32 word"

text \<open>
  What the package calls outside itself and cannot see into: \<open>json.Marshal\<close>,
  \<open>uuid.UUID.String\<close>, \<open>stack.Build\<close>, and the number of spare cells the run-time leaves
  behind a grown slice (given the old capacity and the length needed).
\<close>

record 'o env =
  json_Marshal :: "'o gval \<Rightarrow> go_error + byte list"
  uuid_String :: "byte list \<Rightarrow> string"
  stack_Build :: "nat \<Rightarrow> stack"
  growslice_spare :: "nat \<Rightarrow> nat \<Rightarrow> nat"

text \<open>
  The state a call can read or change: the backing arrays of all slices, the logger and
  the current execution of the request tracker, and the events the sink has emitted.
\<close>

record 'o world =
  heap :: "'o gval list list"
  rt_Logger :: "'o sink_call list"
  rt_Current :: current
  emitted :: "('o event \<times> string) list"

datatype ('a, 'w) outcome = Returned 'a 'w | Panicked panic 'w

fun world_of :: "('a, 'w) outcome \<Rightarrow> 'w" where
  "world_of (Returned _ w) = w"
| "world_of (Panicked _ w) = w"

fun returned :: "('a, 'w) outcome \<Rightarrow> bool" where
  "returned (Returned _ _) = True"
| "returned (Panicked _ _) = False"

section \<open>The typed field encoder\<close>

text \<open>
  \<open>addEventEntry\<close> and \<open>addContext\<close> run the same type switch, the one on an event and
  the other on a context; \<open>sink_field\<close> is the typed setter this switch selects for a
  value.
\<close>

fun sink_field :: "'o env \<Rightarrow> string \<Rightarrow> 'o gval \<Rightarrow> 'o sink_call" where
  "sink_field E key (VErr val) = S_AnErr key val"
| "sink_field E key (VStr val) = S_Str key val"
| "sink_field E key (VBool val) = S_Bool key val"
| "sink_field E key (VTime val) = S_Time key val"
| "sink_field E key (VDur val) = S_Dur key val"
| "sink_field E key (VUUID val) = S_Str key (uuid_String E val)"
| "sink_field E key VNil = S_Interface key VNil"
| "sink_field E key (VOther val) = S_Interface key (VOther val)"
| "sink_field E key (VInt8 val) = S_Int8 key val"
| "sink_field E key (VInt16 val) = S_Int16 key val"
| "sink_field E key (VInt32 val) = S_Int32 key val"
| "sink_field E key (VInt64 val) = S_Int64 key val"
| "sink_field E key (VInt val) = S_Int key val"
| "sink_field E key (VUint8 val) = S_Uint8 key val"
| "sink_field E key (VUint16 val) = S_Uint16 key val"
| "sink_field E key (VUint32 val) = S_Uint32 key val"
| "sink_field E key (VUint64 val) = S_Uint64 key val"
| "sink_field E key (VUint val) = S_Uint key val"
| "sink_field E key (VFloat32 val) = S_Float32 key val"
| "sink_field E key (VFloat64 val) = S_Float64 key val"

definition addEventEntry :: "'o env \<Rightarrow> 'o event \<Rightarrow> string \<Rightarrow> 'o gval \<Rightarrow> 'o event" where
  "addEventEntry E ev key val =
     (let key = (if reserved key then ''x_'' @ key else key)
      in ev\<lparr>ev_fields := ev_fields ev @ [sink_field E key val]\<rparr>)"

definition addContext :: "'o env \<Rightarrow> 'o sink_call list \<Rightarrow> string \<Rightarrow> 'o gval \<Rightarrow> 'o sink_call list" where
  "addContext E ctx key val =
     (let key = (if reserved key then ''x_'' @ key else key)
      in ctx @ [sink_field E key val])"

definition errType :: byte where "errType = 1"
definition strType :: byte where "strType = 2"
definition boolType :: byte where "boolType = 3"
definition timeType :: byte where "timeType = 4"
definition durType :: byte where "durType = 5"
definition uuidType :: byte where "uuidType = 6"
definition jsonType :: byte where "jsonType = 7"
definition intType :: byte where "intType = 8"
definition uintType :: byte where "uintType = 9"
definition float32Type :: byte where "float32Type = 10"
definition float64Type :: byte where "float64Type = 11"

text \<open>The \<open>default\<close> branch of \<open>addTraceBufEntry\<close>.\<close>

definition json_entry :: "'o env \<Rightarrow> buffer \<Rightarrow> string \<Rightarrow> 'o gval \<Rightarrow> buffer" where
  "json_entry E tb key val =
     (case json_Marshal E val of
        Inl err \<Rightarrow> tb @ [tb_Byte jsonType, tb_String key, tb_ByteString [], tb_Err (Some err)]
      | Inr data \<Rightarrow> tb @ [tb_Byte jsonType, tb_String key, tb_ByteString data, tb_Err None])"

fun addTraceBufEntry :: "'o env \<Rightarrow> buffer \<Rightarrow> string \<Rightarrow> 'o gval \<Rightarrow> buffer" where
  "addTraceBufEntry E tb key (VErr val) =
     tb @ [tb_Byte errType, tb_String key, tb_Err (Some val), tb_Stack (errs_Stack val)]"
| "addTraceBufEntry E tb key (VStr val) =
     tb @ [tb_Byte strType, tb_String key, tb_String val]"
| "addTraceBufEntry E tb key (VBool val) =
     tb @ [tb_Byte boolType, tb_String key, tb_Bool val]"
| "addTraceBufEntry E tb key (VTime val) =
     tb @ [tb_Byte timeType, tb_String key, tb_Time val]"
| "addTraceBufEntry E tb key (VDur val) =
     tb @ [tb_Byte durType, tb_String key, tb_Int64 val]"
| "addTraceBufEntry E tb key (VUUID val) =
     tb @ [tb_Byte uuidType, tb_String key, tb_Bytes val]"
| "addTraceBufEntry E tb key VNil = json_entry E tb key VNil"
| "addTraceBufEntry E tb key (VOther val) = json_entry E tb key (VOther val)"
| "addTraceBufEntry E tb key (VInt8 val) =
     tb @ [tb_Byte intType, tb_String key, tb_Varint (scast val)]"
| "addTraceBufEntry E tb key (VInt16 val) =
     tb @ [tb_Byte intType, tb_String key, tb_Varint (scast val)]"
| "addTraceBufEntry E tb key (VInt32 val) =
     tb @ [tb_Byte intType, tb_String key, tb_Varint (scast val)]"
| "addTraceBufEntry E tb key (VInt64 val) =
     tb @ [tb_Byte intType, tb_String key, tb_Varint val]"
| "addTraceBufEntry E tb key (VInt val) =
     tb @ [tb_Byte intType, tb_String key, tb_Varint val]"
| "addTraceBufEntry E tb key (VUint8 val) =
     tb @ [tb_Byte uintType, tb_String key, tb_UVarint (ucast val)]"
| "addTraceBufEntry E tb key (VUint16 val) =
     tb @ [tb_Byte uintType, tb_String key, tb_UVarint (ucast val)]"
| "addTraceBufEntry E tb key (VUint32 val) =
     tb @ [tb_Byte uintType, tb_String key, tb_UVarint (ucast val)]"
| "addTraceBufEntry E tb key (VUint64 val) =
     tb @ [tb_Byte uintType, tb_String key, tb_UVarint val]"
| "addTraceBufEntry E tb key (VUint val) =
     tb @ [tb_Byte uintType, tb_String key, tb_UVarint val]"
| "addTraceBufEntry E tb key (VFloat32 val) =
     tb @ [tb_Byte float32Type, tb_String key, tb_Float32 val]"
| "addTraceBufEntry E tb key (VFloat64 val) =
     tb @ [tb_Byte float64Type, tb_String key, tb_Float64 val]"

section \<open>The log event pipeline\<close>

text \<open>
  The loop of \<open>doLog\<close> over the inherited fields, entered only with a buffer:
  \<open>for i := 0; i < len(ctxFields); i += 2\<close>. A key that is not a string panics at the
  assertion; a last key without a value would panic at the index.
\<close>

fun ctxFields_loop :: "'o env \<Rightarrow> buffer \<Rightarrow> 'o gval list \<Rightarrow> panic + buffer" where
  "ctxFields_loop E tb [] = Inr tb"
| "ctxFields_loop E tb [k] =
     (case assert_string k of None \<Rightarrow> Inl TypeAssertion | Some key \<Rightarrow> Inl IndexOutOfRange)"
| "ctxFields_loop E tb (k # val # rest) =
     (case assert_string k of
        None \<Rightarrow> Inl TypeAssertion
      | Some key \<Rightarrow> ctxFields_loop E (addTraceBufEntry E tb key val) rest)"

text \<open>The loop over the call-site fields; \<open>tb\<close> is the buffer pointer, \<open>None\<close> when nil.\<close>

fun logFields_loop ::
  "'o env \<Rightarrow> 'o event \<Rightarrow> buffer option \<Rightarrow> 'o gval list \<Rightarrow> panic + ('o event \<times> buffer option)"
where
  "logFields_loop E ev tb [] = Inr (ev, tb)"
| "logFields_loop E ev tb [k] =
     (case assert_string k of None \<Rightarrow> Inl TypeAssertion | Some key \<Rightarrow> Inl IndexOutOfRange)"
| "logFields_loop E ev tb (k # val # rest) =
     (case assert_string k of
        None \<Rightarrow> Inl TypeAssertion
      | Some key \<Rightarrow>
          logFields_loop E (addEventEntry E ev key val)
            (case tb of None \<Rightarrow> None | Some b \<Rightarrow> Some (addTraceBufEntry E b key val)) rest)"

text \<open>
  \<open>doLog\<close>. The two slices are passed as the elements they hold at the call. The
  argument of \<open>trace.NewBuffer\<close> is a capacity hint and leaves no trace in the buffer's
  content. The event is the one the caller created; whether the sink drops it for its
  level is the sink's policy and not modelled. The last step tests \<open>curr.Trace\<close> alone
  and then calls \<open>tb.Stack\<close>, which with a nil \<open>tb\<close> dereferences a nil pointer.
\<close>

definition doLog ::
  "'o env \<Rightarrow> logLevel \<Rightarrow> 'o event \<Rightarrow> string \<Rightarrow> 'o gval list \<Rightarrow> 'o gval list \<Rightarrow> 'o world
     \<Rightarrow> (unit, 'o world) outcome"
where
  "doLog E level ev msg ctxFields logFields w =
     (let curr = rt_Current w;
          numFields = length ctxFields div 2 + length logFields div 2;
          tb0 = (case Req curr of
                   None \<Rightarrow> None
                 | Some req \<Rightarrow>
                     (case Trace curr of
                        None \<Rightarrow> None
                      | Some _ \<Rightarrow>
                          Some [tb_Bytes (SpanID req), tb_UVarint (ucast (Goctr curr)),
                                tb_Byte (level_byte level), tb_String msg,
                                tb_UVarint (of_nat numFields)]));
          tb1 = (case tb0 of
                   None \<Rightarrow> Inr None
                 | Some b \<Rightarrow>
                     (case ctxFields_loop E b ctxFields of
                        Inl p \<Rightarrow> Inl p
                      | Inr b' \<Rightarrow> Inr (Some b')))
      in case tb1 of
           Inl p \<Rightarrow> Panicked p w
         | Inr tb \<Rightarrow>
             (case logFields_loop E ev tb logFields of
                Inl p \<Rightarrow> Panicked p w
              | Inr (ev', tb') \<Rightarrow>
                  (let w' = w\<lparr>emitted := emitted w @ [(ev', msg)]\<rparr>
                   in case Trace curr of
                        None \<Rightarrow> Returned () w'
                      | Some tlog \<Rightarrow>
                          (case tb' of
                             None \<Rightarrow> Panicked NilDereference w'
                           | Some b \<Rightarrow>
                               Returned ()
                                 (w'\<lparr>rt_Current := curr\<lparr>Trace :=
                                    Some (tlog @ [(LogMessage, b @ [tb_Stack (stack_Build E 3)])])\<rparr>\<rparr>)))))"

section \<open>Manager and Ctx\<close>

text \<open>
  There is one request tracker, the one in the world, so a \<open>Manager\<close> (a non-nil
  pointer to it) carries nothing and the \<open>mgr\<close> field of a \<open>Ctx\<close> is left out. The
  variadic \<open>keysAndValues\<close> is the slice the callee receives.
\<close>

record 'o Ctx =
  Ctx_ctx :: "'o sink_call list"
  Ctx_fields :: slice

definition Manager_Debug :: "'o env \<Rightarrow> string \<Rightarrow> slice \<Rightarrow> 'o world \<Rightarrow> (unit, 'o world) outcome" where
  "Manager_Debug E msg keysAndValues w =
     (let fs = pairs keysAndValues
      in doLog E levelDebug (new_event levelDebug (rt_Logger w)) msg [] (view (heap w) fs) w)"

definition Manager_Info :: "'o env \<Rightarrow> string \<Rightarrow> slice \<Rightarrow> 'o world \<Rightarrow> (unit, 'o world) outcome" where
  "Manager_Info E msg keysAndValues w =
     (let fs = pairs keysAndValues
      in doLog E levelInfo (new_event levelInfo (rt_Logger w)) msg [] (view (heap w) fs) w)"

definition Manager_Warn :: "'o env \<Rightarrow> string \<Rightarrow> slice \<Rightarrow> 'o world \<Rightarrow> (unit, 'o world) outcome" where
  "Manager_Warn E msg keysAndValues w =
     (let fs = pairs keysAndValues
      in doLog E levelWarn (new_event levelWarn (rt_Logger w)) msg [] (view (heap w) fs) w)"

definition Manager_Error :: "'o env \<Rightarrow> string \<Rightarrow> slice \<Rightarrow> 'o world \<Rightarrow> (unit, 'o world) outcome" where
  "Manager_Error E msg keysAndValues w =
     (let fs = pairs keysAndValues
      in doLog E levelError (new_event levelError (rt_Logger w)) msg [] (view (heap w) fs) w)"

text \<open>The loop of \<open>Manager.With\<close> and \<open>Ctx.With\<close> that layers the fields onto a context.\<close>

fun addContext_loop ::
  "'o env \<Rightarrow> 'o sink_call list \<Rightarrow> 'o gval list \<Rightarrow> panic + 'o sink_call list"
where
  "addContext_loop E c [] = Inr c"
| "addContext_loop E c [k] =
     (case assert_string k of None \<Rightarrow> Inl TypeAssertion | Some key \<Rightarrow> Inl IndexOutOfRange)"
| "addContext_loop E c (k # val # rest) =
     (case assert_string k of
        None \<Rightarrow> Inl TypeAssertion
      | Some key \<Rightarrow> addContext_loop E (addContext E c key val) rest)"

definition Manager_With :: "'o env \<Rightarrow> slice \<Rightarrow> 'o world \<Rightarrow> ('o Ctx, 'o world) outcome" where
  "Manager_With E keysAndValues w =
     (let c = rt_Logger w;
          fs = pairs keysAndValues
      in case addContext_loop E c (view (heap w) fs) of
           Inl p \<Rightarrow> Panicked p w
         | Inr c' \<Rightarrow> Returned \<lparr>Ctx_ctx = c', Ctx_fields = fs\<rparr> w)"

definition Ctx_Debug ::
  "'o env \<Rightarrow> 'o Ctx \<Rightarrow> string \<Rightarrow> slice \<Rightarrow> 'o world \<Rightarrow> (unit, 'o world) outcome" where
  "Ctx_Debug E ctx msg keysAndValues w =
     (let l = Ctx_ctx ctx;
          fs = pairs keysAndValues
      in doLog E levelDebug (new_event levelDebug l) msg
           (view (heap w) (Ctx_fields ctx)) (view (heap w) fs) w)"

definition Ctx_Info ::
  "'o env \<Rightarrow> 'o Ctx \<Rightarrow> string \<Rightarrow> slice \<Rightarrow> 'o world \<Rightarrow> (unit, 'o world) outcome" where
  "Ctx_Info E ctx msg keysAndValues w =
     (let l = Ctx_ctx ctx;
          fs = pairs keysAndValues
      in doLog E levelInfo (new_event levelInfo l) msg
           (view (heap w) (Ctx_fields ctx)) (view (heap w) fs) w)"

definition Ctx_Warn ::
  "'o env \<Rightarrow> 'o Ctx \<Rightarrow> string \<Rightarrow> slice \<Rightarrow> 'o world \<Rightarrow> (unit, 'o world) outcome" where
  "Ctx_Warn E ctx msg keysAndValues w =
     (let l = Ctx_ctx ctx;
          fs = pairs keysAndValues
      in doLog E levelWarn (new_event levelWarn l) msg
           (view (heap w) (Ctx_fields ctx)) (view (heap w) fs) w)"

definition Ctx_Error ::
  "'o env \<Rightarrow> 'o Ctx \<Rightarrow> string \<Rightarrow> slice \<Rightarrow> 'o world \<Rightarrow> (unit, 'o world) outcome" where
  "Ctx_Error E ctx msg keysAndValues w =
     (let l = Ctx_ctx ctx;
          fs = pairs keysAndValues
      in doLog E levelError (new_event levelError l) msg
           (view (heap w) (Ctx_fields ctx)) (view (heap w) fs) w)"

definition Ctx_With :: "'o env \<Rightarrow> 'o Ctx \<Rightarrow> slice \<Rightarrow> 'o world \<Rightarrow> ('o Ctx, 'o world) outcome" where
  "Ctx_With E ctx keysAndValues w =
     (let c = Ctx_ctx ctx;
          fs = pairs keysAndValues
      in case addContext_loop E c (view (heap w) fs) of
           Inl p \<Rightarrow> Panicked p w
         | Inr c' \<Rightarrow>
             (let old = Ctx_fields ctx;
                  spare = growslice_spare E (s_cap old) (s_len old + s_len fs);
                  (fs', h') = append_slice spare (heap w) old (view (heap w) fs)
              in Returned \<lparr>Ctx_ctx = c', Ctx_fields = fs'\<rparr> (w\<lparr>heap := h'\<rparr>)))"

section \<open>Reading the results\<close>

text \<open>
  The functions below are not part of the package; the theorems use them to say what
  the package wrote. \<open>key_values\<close> reads an element list as key/value pairs, and is
  defined where the list has even length and every key is a string; \<open>guard\<close> is the key
  the reserved-key guard yields; \<open>entry\<close> is what \<open>addTraceBufEntry\<close> appends for one
  field, with its tag, its key and its payload.
\<close>

fun key_values :: "'o gval list \<Rightarrow> (string \<times> 'o gval) list option" where
  "key_values [] = Some []"
| "key_values [k] = None"
| "key_values (k # val # rest) =
     (case assert_string k of
        None \<Rightarrow> None
      | Some key \<Rightarrow> (case key_values rest of None \<Rightarrow> None | Some kvs \<Rightarrow> Some ((key, val) # kvs)))"

definition guard :: "string \<Rightarrow> string" where
  "guard key = (if reserved key then ''x_'' @ key else key)"

definition sink_entry :: "'o env \<Rightarrow> string \<times> 'o gval \<Rightarrow> 'o sink_call" where
  "sink_entry E kv = sink_field E (guard (fst kv)) (snd kv)"

definition entry :: "'o env \<Rightarrow> string \<times> 'o gval \<Rightarrow> buffer" where
  "entry E kv = addTraceBufEntry E [] (fst kv) (snd kv)"

definition entries :: "'o env \<Rightarrow> (string \<times> 'o gval) list \<Rightarrow> buffer" where
  "entries E kvs = concat (map (entry E) kvs)"

definition tag_written :: "'o env \<Rightarrow> string \<Rightarrow> 'o gval \<Rightarrow> byte option" where
  "tag_written E key val =
     (case addTraceBufEntry E [] key val of tb_Byte t # _ \<Rightarrow> Some t | _ \<Rightarrow> None)"

definition key_written :: "'o env \<Rightarrow> string \<Rightarrow> 'o gval \<Rightarrow> string option" where
  "key_written E key val =
     (case addTraceBufEntry E [] key val of _ # tb_String k # _ \<Rightarrow> Some k | _ \<Rightarrow> None)"

definition payload :: "'o env \<Rightarrow> 'o gval \<Rightarrow> buffer" where
  "payload E val = drop 2 (addTraceBufEntry E [] [] val)"

text \<open>The header that \<open>doLog\<close> writes when it creates the buffer.\<close>

definition header :: "request \<Rightarrow> current \<Rightarrow> logLevel \<Rightarrow> string \<Rightarrow> nat \<Rightarrow> buffer" where
  "header req cur level msg n =
     [tb_Bytes (SpanID req), tb_UVarint (ucast (Goctr cur)), tb_Byte (level_byte level),
      tb_String msg, tb_UVarint (of_nat n)]"

section \<open>Fixtures\<close>

text \<open>A concrete environment, values and worlds on which the theorems are exercised.\<close>

definition E0 :: "nat env" where
  "E0 = \<lparr>json_Marshal = (\<lambda>v. case v of
                             VOther n \<Rightarrow> if n = 0 then Inl \<lparr>Error = ''json: unsupported type'', errs_Stack = []\<rparr>
                                        else Inr [0x7B, 0x7D]
                           | _ \<Rightarrow> Inr [0x6E, 0x75, 0x6C, 0x6C]),
         uuid_String = (\<lambda>u. ''uuid''),
         stack_Build = (\<lambda>skip. [skip, 7]),
         growslice_spare = (\<lambda>old need. need)\<rparr>"

definition req0 :: request where
  "req0 = \<lparr>SpanID = [1, 2, 3, 4, 5, 6, 7, 8]\<rparr>"

definition curr_traced :: current where
  "curr_traced = \<lparr>Req = Some req0, Trace = Some [], Goctr = 5\<rparr>"

definition curr_untraced :: current where
  "curr_untraced = \<lparr>Req = Some req0, Trace = None, Goctr = 5\<rparr>"

definition curr_trace_only :: current where
  "curr_trace_only = \<lparr>Req = None, Trace = Some [], Goctr = 0\<rparr>"

definition heap0 :: "nat gval list list" where
  "heap0 = [[VStr ''a'', VInt 1],
            [VStr ''encore_id'', VStr ''v'', VStr ''odd''],
            [VInt 3, VStr ''k''],
            [VStr ''p'', VBool True, VNil, VNil]]"

definition sl :: "nat \<Rightarrow> nat \<Rightarrow> slice" where
  "sl a n = \<lparr>s_array = a, s_off = 0, s_len = n, s_cap = n\<rparr>"

definition parent0 :: "nat Ctx" where
  "parent0 = \<lparr>Ctx_ctx = [S_Bool ''p'' True],
              Ctx_fields = \<lparr>s_array = 3, s_off = 0, s_len = 2, s_cap = 4\<rparr>\<rparr>"

definition world0 :: "current \<Rightarrow> nat world" where
  "world0 c = \<lparr>heap = heap0, rt_Logger = [], rt_Current = c, emitted = []\<rparr>"

text \<open>
  A caller's slice with spare capacity, and the two contexts that \<open>With\<close> derives from
  \<open>parent0\<close> one after the other, with the worlds they leave.
\<close>

definition args0 :: slice where
  "args0 = \<lparr>s_array = 3, s_off = 0, s_len = 2, s_cap = 4\<rparr>"

definition child1 :: "nat Ctx" where
  "child1 = \<lparr>Ctx_ctx = [S_Bool ''p'' True, S_Int ''a'' 1],
             Ctx_fields = \<lparr>s_array = 3, s_off = 0, s_len = 4, s_cap = 4\<rparr>\<rparr>"

definition child2 :: "nat Ctx" where
  "child2 = \<lparr>Ctx_ctx = [S_Bool ''p'' True, S_Str ''x_encore_id'' ''v''],
             Ctx_fields = \<lparr>s_array = 3, s_off = 0, s_len = 4, s_cap = 4\<rparr>\<rparr>"

definition world1 :: "nat world" where
  "world1 = (world0 curr_traced)\<lparr>heap := heap0[3 := [VStr ''p'', VBool True, VStr ''a'', VInt 1]]\<rparr>"

definition world2 :: "nat world" where
  "world2 = (world0 curr_traced)
              \<lparr>heap := heap0[3 := [VStr ''p'', VBool True, VStr ''encore_id'', VStr ''v'']]\<rparr>"

section \<open>The trace record in bytes\<close>

text \<open>
  The kinds of write calls of a \<open>trace.Buffer\<close>. \<open>Bytes\<close> writes its argument raw; the
  only field payload written with it is a UUID, an array of 16 bytes.
\<close>

datatype kind =
    K_Byte | K_Raw16 | K_UVarint | K_String | K_Err | K_Stack | K_Bool | K_Time
  | K_Int64 | K_ByteString | K_Varint | K_Float32 | K_Float64

fun kind_of :: "tb_call \<Rightarrow> kind" where
  "kind_of (tb_Bytes _) = K_Raw16"
| "kind_of (tb_UVarint _) = K_UVarint"
| "kind_of (tb_Byte _) = K_Byte"
| "kind_of (tb_String _) = K_String"
| "kind_of (tb_Err _) = K_Err"
| "kind_of (tb_Stack _) = K_Stack"
| "kind_of (tb_Bool _) = K_Bool"
| "kind_of (tb_Time _) = K_Time"
| "kind_of (tb_Int64 _) = K_Int64"
| "kind_of (tb_ByteString _) = K_ByteString"
| "kind_of (tb_Varint _) = K_Varint"
| "kind_of (tb_Float32 _) = K_Float32"
| "kind_of (tb_Float64 _) = K_Float64"

text \<open>
  Modelled from the spec: the byte layout of the write calls of \<open>trace.Buffer\<close>, whose
  source is not part of the package. It is a parameter \<open>W\<close>; only \<open>Byte\<close> and \<open>Bytes\<close>
  are fixed, as the one byte and the raw bytes they are given.
\<close>

type_synonym wire = "tb_call \<Rightarrow> byte list"

fun bytes_of :: "wire \<Rightarrow> tb_call \<Rightarrow> byte list" where
  "bytes_of W (tb_Byte b) = [b]"
| "bytes_of W (tb_Bytes bs) = bs"
| "bytes_of W c = W c"

definition render :: "wire \<Rightarrow> buffer \<Rightarrow> byte list" where
  "render W tb = concat (map (bytes_of W) tb)"

text \<open>
  Modelled from the spec: the independent decoder of the round-trip property (section
  8), which reads a field as \<open>[tag:1][key:string][payload]\<close> and finds the shape of the
  payload in the tag table of section 4.3: error, message string and stack; string,
  length-prefixed bytes; bool; time; duration, a signed 64-bit count; UUID, 16 raw bytes;
  JSON fallback, the bytes and an error; signed and unsigned integers, variable-length;
  float32 and float64. It is given, for every kind of call, the number of bytes the first
  call of that kind occupies in its input (\<open>frame\<close>), and the string that the bytes of a
  string call hold (\<open>read_String\<close>). \<open>wire_ok\<close> says that these two read what the
  layout \<open>W\<close> writes.
\<close>

record reader =
  frame :: "kind \<Rightarrow> byte list \<Rightarrow> nat option"
  read_String :: "byte list \<Rightarrow> string"

definition structured :: "kind \<Rightarrow> bool" where
  "structured k \<longleftrightarrow> k \<noteq> K_Byte \<and> k \<noteq> K_Raw16"

definition wire_ok :: "wire \<Rightarrow> reader \<Rightarrow> bool" where
  "wire_ok W R \<longleftrightarrow>
     (\<forall>c rest. structured (kind_of c) \<longrightarrow> frame R (kind_of c) (W c @ rest) = Some (length (W c)))
   \<and> (\<forall>s. read_String R (W (tb_String s)) = s)"

definition take_frame :: "reader \<Rightarrow> kind \<Rightarrow> byte list \<Rightarrow> (byte list \<times> byte list) option" where
  "take_frame R k bs =
     (case (case k of K_Byte \<Rightarrow> Some 1 | K_Raw16 \<Rightarrow> Some 16 | _ \<Rightarrow> frame R k bs) of
        None \<Rightarrow> None
      | Some n \<Rightarrow> if n \<le> length bs then Some (take n bs, drop n bs) else None)"

fun take_frames :: "reader \<Rightarrow> kind list \<Rightarrow> byte list \<Rightarrow> (byte list \<times> byte list) option" where
  "take_frames R [] bs = Some ([], bs)"
| "take_frames R (k # ks) bs =
     (case take_frame R k bs of
        None \<Rightarrow> None
      | Some (f, r) \<Rightarrow>
          (case take_frames R ks r of None \<Rightarrow> None | Some (fs, r') \<Rightarrow> Some (f @ fs, r')))"

definition payload_kinds :: "byte \<Rightarrow> kind list option" where
  "payload_kinds tag =
     (if tag = 1 then Some [K_Err, K_Stack]
      else if tag = 2 then Some [K_String]
      else if tag = 3 then Some [K_Bool]
      else if tag = 4 then Some [K_Time]
      else if tag = 5 then Some [K_Int64]
      else if tag = 6 then Some [K_Raw16]
      else if tag = 7 then Some [K_ByteString, K_Err]
      else if tag = 8 then Some [K_Varint]
      else if tag = 9 then Some [K_UVarint]
      else if tag = 10 then Some [K_Float32]
      else if tag = 11 then Some [K_Float64]
      else None)"

definition decode_field ::
  "reader \<Rightarrow> byte list \<Rightarrow> ((string \<times> byte \<times> byte list) \<times> byte list) option" where
  "decode_field R bs =
     (case bs of
        [] \<Rightarrow> None
      | tag # bs1 \<Rightarrow>
          (case take_frame R K_String bs1 of
             None \<Rightarrow> None
           | Some (kb, bs2) \<Rightarrow>
               (case payload_kinds tag of
                  None \<Rightarrow> None
                | Some ks \<Rightarrow>
                    (case take_frames R ks bs2 of
                       None \<Rightarrow> None
                     | Some (p, rest) \<Rightarrow> Some ((read_String R kb, tag, p), rest)))))"

fun decode_fields ::
  "reader \<Rightarrow> nat \<Rightarrow> byte list \<Rightarrow> ((string \<times> byte \<times> byte list) list \<times> byte list) option" where
  "decode_fields R 0 bs = Some ([], bs)"
| "decode_fields R (Suc n) bs =
     (case decode_field R bs of
        None \<Rightarrow> None
      | Some (f, r) \<Rightarrow>
          (case decode_fields R n r of None \<Rightarrow> None | Some (fs, r') \<Rightarrow> Some (f # fs, r')))"

text \<open>A value is well formed when a UUID has its 16 bytes.\<close>

fun wf_val :: "'o gval \<Rightarrow> bool" where
  "wf_val (VUUID u) = (length u = 16)"
| "wf_val _ = True"

text \<open>The tag table of section 4.3, by dynamic type.\<close>

definition tag_of_type :: "gtype \<Rightarrow> byte" where
  "tag_of_type t =
     (case t of
        TError \<Rightarrow> errType | TString \<Rightarrow> strType | TBool \<Rightarrow> boolType | TTime \<Rightarrow> timeType
      | TDuration \<Rightarrow> durType | TUUID \<Rightarrow> uuidType | TNil \<Rightarrow> jsonType | TOther \<Rightarrow> jsonType
      | TInt8 \<Rightarrow> intType | TInt16 \<Rightarrow> intType | TInt32 \<Rightarrow> intType | TInt64 \<Rightarrow> intType
      | TInt \<Rightarrow> intType
      | TUint8 \<Rightarrow> uintType | TUint16 \<Rightarrow> uintType | TUint32 \<Rightarrow> uintType
      | TUint64 \<Rightarrow> uintType | TUint \<Rightarrow> uintType
      | TFloat32 \<Rightarrow> float32Type | TFloat64 \<Rightarrow> float64Type)"

definition framed :: "tb_call \<Rightarrow> bool" where
  "framed c \<longleftrightarrow> (case c of tb_Bytes b \<Rightarrow> length b = 16 | _ \<Rightarrow> True)"

text \<open>
  Modelled from the spec: one byte layout with the payload shapes of section 4.3, on
  which the round trip is run: integers as base-128 varints (signed ones zig-zag
  encoded), strings and byte strings behind a varint length, an error as its message
  string, a stack as its number of frames and the frames, fixed-width values in
  little-endian order.
\<close>

definition byte_of :: "nat \<Rightarrow> byte" where
  "byte_of n = of_nat n"

fun uvarint :: "nat \<Rightarrow> byte list" where
  "uvarint n = (if n < 128 then [byte_of n] else byte_of (n mod 128 + 128) # uvarint (n div 128))"

declare uvarint.simps [simp del]

fun le_bytes :: "nat \<Rightarrow> nat \<Rightarrow> byte list" where
  "le_bytes 0 n = []"
| "le_bytes (Suc k) n = byte_of (n mod 256) # le_bytes k (n div 256)"

definition put_String :: "string \<Rightarrow> byte list" where
  "put_String s = uvarint (length s) @ map (\<lambda>c. byte_of (of_char c)) s"

definition zigzag :: "64 word \<Rightarrow> 64 word" where
  "zigzag x = (if sint x < 0 then - (2 * x) - 1 else 2 * x)"

fun W0 :: "tb_call \<Rightarrow> byte list" where
  "W0 (tb_Bytes bs) = bs"
| "W0 (tb_UVarint x) = uvarint (unat x)"
| "W0 (tb_Byte b) = [b]"
| "W0 (tb_String s) = put_String s"
| "W0 (tb_Err e) = put_String (case e of None \<Rightarrow> [] | Some err \<Rightarrow> Error err)"
| "W0 (tb_Stack s) = uvarint (length s) @ concat (map uvarint s)"
| "W0 (tb_Bool b) = [if b then 1 else 0]"
| "W0 (tb_Time t) = le_bytes 8 (unat (Unix t)) @ le_bytes 4 (unat (Nanosecond t))"
| "W0 (tb_Int64 x) = le_bytes 8 (unat x)"
| "W0 (tb_ByteString bs) = uvarint (length bs) @ bs"
| "W0 (tb_Varint x) = uvarint (unat (zigzag x))"
| "W0 (tb_Float32 x) = le_bytes 4 (unat x)"
| "W0 (tb_Float64 x) = le_bytes 8 (unat x)"

fun uvarint_len :: "byte list \<Rightarrow> nat option" where
  "uvarint_len [] = None"
| "uvarint_len (b # bs) = (if b < 128 then Some 1 else map_option Suc (uvarint_len bs))"

fun uvarint_val :: "byte list \<Rightarrow> nat option" where
  "uvarint_val [] = None"
| "uvarint_val (b # bs) =
     (if b < 128 then Some (unat b)
      else map_option (\<lambda>v. unat b - 128 + 128 * v) (uvarint_val bs))"

fun skip_uvarints :: "nat \<Rightarrow> byte list \<Rightarrow> nat option" where
  "skip_uvarints 0 bs = Some 0"
| "skip_uvarints (Suc n) bs =
     (case uvarint_len bs of
        None \<Rightarrow> None
      | Some l \<Rightarrow> map_option (\<lambda>m. l + m) (skip_uvarints n (drop l bs)))"

definition prefixed_len :: "byte list \<Rightarrow> nat option" where
  "prefixed_len bs =
     (case uvarint_len bs of
        None \<Rightarrow> None
      | Some l \<Rightarrow> (case uvarint_val bs of None \<Rightarrow> None | Some n \<Rightarrow> Some (l + n)))"

definition stack_len :: "byte list \<Rightarrow> nat option" where
  "stack_len bs =
     (case uvarint_len bs of
        None \<Rightarrow> None
      | Some l \<Rightarrow>
          (case uvarint_val bs of
             None \<Rightarrow> None
           | Some n \<Rightarrow> map_option (\<lambda>m. l + m) (skip_uvarints n (drop l bs))))"

fun frame0 :: "kind \<Rightarrow> byte list \<Rightarrow> nat option" where
  "frame0 K_Byte bs = Some 1"
| "frame0 K_Raw16 bs = Some 16"
| "frame0 K_UVarint bs = uvarint_len bs"
| "frame0 K_String bs = prefixed_len bs"
| "frame0 K_Err bs = prefixed_len bs"
| "frame0 K_Stack bs = stack_len bs"
| "frame0 K_Bool bs = Some 1"
| "frame0 K_Time bs = Some 12"
| "frame0 K_Int64 bs = Some 8"
| "frame0 K_ByteString bs = prefixed_len bs"
| "frame0 K_Varint bs = uvarint_len bs"
| "frame0 K_Float32 bs = Some 4"
| "frame0 K_Float64 bs = Some 8"

definition R0 :: reader where
  "R0 = \<lparr>frame = frame0,
         read_String = (\<lambda>bs. case uvarint_len bs of
                                None \<Rightarrow> []
                              | Some l \<Rightarrow> map (\<lambda>b. char_of (unat b)) (drop l bs))\<rparr>"

text \<open>A field list for the round trip.\<close>

definition kvs0 :: "(string \<times> nat gval) list" where
  "kvs0 = [(''a'', VInt 300),
           (''encore_id'', VStr ''v''),
           (''u'', VUUID [0, 1, 2, 3, 4, 5, 6, 7, 8, 9, 10, 11, 12, 13, 14, 15]),
           (''e'', VErr \<lparr>Error = ''bad'', errs_Stack = [300]\<rparr>),
           (''j'', VOther 0)]"

section \<open>Properties\<close>

subsection \<open>Auxiliary facts\<close>

lemma view_pairs: "view h (pairs s) = take (2 * (s_len s div 2)) (view h s)"
proof (cases "s_len s mod 2 = 1")
  case True
  then have "s_len s - 1 = 2 * (s_len s div 2)" by presburger
  with True show ?thesis
    by (simp add: pairs_def view_def Let_def min_def)
next
  case False
  then have "s_len s = 2 * (s_len s div 2)" by presburger
  with False show ?thesis
    by (simp add: pairs_def view_def Let_def)
qed

lemma length_view: "wf_slice h s \<Longrightarrow> length (view h s) = s_len s"
  by (auto simp: wf_slice_def view_def)

lemma addTraceBufEntry_append: "addTraceBufEntry E tb key val = tb @ entry E (key, val)"
  by (cases val) (simp_all add: entry_def json_entry_def split: sum.splits)

lemma entry_decomp:
  "\<exists>t. tag_written E key val = Some t \<and> entry E (key, val) = tb_Byte t # tb_String key # payload E val"
  by (cases val) (simp_all add: entry_def tag_written_def payload_def json_entry_def split: sum.splits)

lemma ctxFields_loop_Some:
  "key_values xs = Some kvs \<Longrightarrow> ctxFields_loop E tb xs = Inr (tb @ entries E kvs)"
proof (induction E tb xs arbitrary: kvs rule: ctxFields_loop.induct)
  case (1 E tb)
  then show ?case by (simp add: entries_def)
next
  case (2 E tb k)
  then show ?case by simp
next
  case (3 E tb k val rest)
  from "3.prems" obtain key kvs' where k: "assert_string k = Some key"
    and r: "key_values rest = Some kvs'" and kvs: "kvs = (key, val) # kvs'"
    by (auto split: option.splits)
  from "3.IH" [OF k r] show ?case
    by (simp add: k kvs entries_def addTraceBufEntry_append)
qed

lemma addEventEntry_eq:
  "addEventEntry E ev key val = ev\<lparr>ev_fields := ev_fields ev @ [sink_entry E (key, val)]\<rparr>"
  by (simp add: addEventEntry_def sink_entry_def guard_def)

lemma addContext_eq: "addContext E c key val = c @ [sink_entry E (key, val)]"
  by (simp add: addContext_def sink_entry_def guard_def)

lemma logFields_loop_Some:
  "key_values xs = Some kvs \<Longrightarrow>
   logFields_loop E ev tb xs =
     Inr (ev\<lparr>ev_fields := ev_fields ev @ map (sink_entry E) kvs\<rparr>,
          map_option (\<lambda>b. b @ entries E kvs) tb)"
proof (induction E ev tb xs arbitrary: kvs rule: logFields_loop.induct)
  case (1 E ev tb)
  then show ?case by (cases tb) (simp_all add: entries_def)
next
  case (2 E ev tb k)
  then show ?case by simp
next
  case (3 E ev tb k val rest)
  from "3.prems" obtain key kvs' where k: "assert_string k = Some key"
    and r: "key_values rest = Some kvs'" and kvs: "kvs = (key, val) # kvs'"
    by (auto split: option.splits)
  from "3.IH" [OF k r] show ?case
    by (cases tb) (simp_all add: k kvs entries_def addTraceBufEntry_append addEventEntry_eq)
qed

lemma addContext_loop_Some:
  "key_values xs = Some kvs \<Longrightarrow> addContext_loop E c xs = Inr (c @ map (sink_entry E) kvs)"
proof (induction E c xs arbitrary: kvs rule: addContext_loop.induct)
  case (3 E c k val rest)
  from "3.prems" obtain key kvs' where k: "assert_string k = Some key"
    and r: "key_values rest = Some kvs'" and kvs: "kvs = (key, val) # kvs'"
    by (auto split: option.splits)
  from "3.IH" [OF k r] show ?case
    by (simp add: k kvs addContext_eq)
qed simp_all

lemma key_values_length: "key_values xs = Some kvs \<Longrightarrow> length xs = 2 * length kvs"
proof (induction xs arbitrary: kvs rule: key_values.induct)
  case (3 k val rest)
  then show ?case by (auto split: option.splits)
qed simp_all

lemma doLog_eq:
  assumes cs: "key_values ctxFields = Some cs" and ls: "key_values logFields = Some ls"
  shows "doLog E level ev msg ctxFields logFields w =
     (let ev' = ev\<lparr>ev_fields := ev_fields ev @ map (sink_entry E) ls\<rparr>;
          w' = w\<lparr>emitted := emitted w @ [(ev', msg)]\<rparr>
      in case Trace (rt_Current w) of
           None \<Rightarrow> Returned () w'
         | Some tlog \<Rightarrow>
             (case Req (rt_Current w) of
                None \<Rightarrow> Panicked NilDereference w'
              | Some req \<Rightarrow>
                  Returned ()
                    (w'\<lparr>rt_Current := (rt_Current w)\<lparr>Trace :=
                       Some (tlog @ [(LogMessage,
                         header req (rt_Current w) level msg (length cs + length ls)
                           @ entries E cs @ entries E ls @ [tb_Stack (stack_Build E 3)])])\<rparr>\<rparr>)))"
proof -
  have n: "length ctxFields div 2 + length logFields div 2 = length cs + length ls"
    using key_values_length [OF cs] key_values_length [OF ls] by simp
  show ?thesis
  proof (cases "Trace (rt_Current w)")
    case None
    then show ?thesis
      by (simp add: doLog_def Let_def logFields_loop_Some [OF ls] split: option.splits)
  next
    case (Some tlog)
    show ?thesis
    proof (cases "Req (rt_Current w)")
      case None
      with Some show ?thesis
        by (simp add: doLog_def Let_def logFields_loop_Some [OF ls])
    next
      case (Some req)
      with \<open>Trace (rt_Current w) = Some tlog\<close> show ?thesis
        by (simp add: doLog_def Let_def n header_def
            ctxFields_loop_Some [OF cs] logFields_loop_Some [OF ls])
    qed
  qed
qed

lemma sink_key_sink_field: "sink_key (sink_field E k v) = k"
  by (cases v) simp_all

lemma wf_slice_pairs: "wf_slice h s \<Longrightarrow> wf_slice h (pairs s)"
  by (auto simp: wf_slice_def pairs_def Let_def)

subsection \<open>Appending to a slice\<close>

text \<open>
  Whether \<open>append\<close> writes in place or allocates, the result holds the old elements
  followed by the new ones, and the slice that was appended to still shows what it
  showed before: an in-place append writes only behind its length.
\<close>

lemma append_slice_in_place:
  assumes wf: "wf_slice h s" and fit: "s_len s + length xs \<le> s_cap s"
    and ap: "append_slice spare h s xs = (s', h')"
  shows "view h' s' = view h s @ xs" and "view h' s = view h s"
    and "wf_slice h' s'" and "wf_slice h' s" and "length h' = length h"
proof -
  let ?a = "h ! s_array s"
  let ?at = "s_off s + s_len s"
  let ?a' = "take ?at ?a @ xs @ drop (?at + length xs) ?a"
  from ap fit have s': "s' = s\<lparr>s_len := s_len s + length xs\<rparr>" and h': "h' = h[s_array s := ?a']"
    by (simp_all add: append_slice_def Let_def)
  show len: "length h' = length h" by (simp add: h')
  show "view h' s' = view h s @ xs" "view h' s = view h s" "wf_slice h' s'" "wf_slice h' s"
  proof -
    show "view h' s' = view h s @ xs"
    proof (cases "s_cap s = 0")
      case True
      with fit wf show ?thesis by (simp add: s' h' view_def wf_slice_def)
    next
      case False
      with wf have a: "s_array s < length h" and b: "s_off s + s_cap s \<le> length ?a"
        by (simp_all add: wf_slice_def)
      from b fit have c: "?at \<le> length ?a" by simp
      have "drop (s_off s) ?a' = take (s_len s) (drop (s_off s) ?a) @ xs @ drop (?at + length xs) ?a"
        using c by (simp add: drop_take)
      moreover have "length (take (s_len s) (drop (s_off s) ?a)) = s_len s"
        using c by simp
      ultimately show ?thesis
        using a by (simp add: s' h' view_def)
    qed
    show "view h' s = view h s"
    proof (cases "s_cap s = 0")
      case True
      with fit wf show ?thesis by (simp add: h' view_def wf_slice_def)
    next
      case False
      with wf have a: "s_array s < length h" and b: "s_off s + s_cap s \<le> length ?a"
        by (simp_all add: wf_slice_def)
      from b fit have c: "?at \<le> length ?a" by simp
      have "drop (s_off s) ?a' = take (s_len s) (drop (s_off s) ?a) @ xs @ drop (?at + length xs) ?a"
        using c by (simp add: drop_take)
      moreover have "length (take (s_len s) (drop (s_off s) ?a)) = s_len s"
        using c by simp
      ultimately show ?thesis
        using a by (simp add: h' view_def)
    qed
    have la: "s_array s < length h \<Longrightarrow> s_off s + s_cap s \<le> length ?a \<Longrightarrow> length ?a' = length ?a"
      using fit by simp
    show "wf_slice h' s'"
      using wf fit la by (auto simp: wf_slice_def s' h')
    show "wf_slice h' s"
      using wf fit la by (auto simp: wf_slice_def h')
  qed
qed

lemma append_slice_grow:
  assumes wf: "wf_slice h s" and big: "\<not> s_len s + length xs \<le> s_cap s"
    and ap: "append_slice spare h s xs = (s', h')"
  shows "view h' s' = view h s @ xs" and "view h' s = view h s"
    and "wf_slice h' s'" and "wf_slice h' s" and "length h' = Suc (length h)"
proof -
  from ap big have s': "s' = \<lparr>s_array = length h, s_off = 0,
        s_len = s_len s + length xs, s_cap = s_len s + length xs + spare\<rparr>"
    and h': "h' = h @ [view h s @ xs @ replicate spare VNil]"
    by (simp_all add: append_slice_def Let_def)
  have l: "length (view h s) = s_len s" using wf by (rule length_view)
  show "view h' s' = view h s @ xs"
    by (simp add: s' h' view_def [of "h @ _"] l)
  show "view h' s = view h s"
    using wf by (auto simp: h' view_def nth_append wf_slice_def)
  show "wf_slice h' s'"
    by (simp add: wf_slice_def s' h' l)
  show "wf_slice h' s"
    using wf by (auto simp: wf_slice_def h' nth_append)
  show "length h' = Suc (length h)" by (simp add: h')
qed

lemma append_slice_views:
  assumes wf: "wf_slice h s" and ap: "append_slice spare h s xs = (s', h')"
  shows "view h' s' = view h s @ xs" and "view h' s = view h s"
    and "wf_slice h' s'" and "wf_slice h' s"
  using append_slice_in_place [OF wf _ ap] append_slice_grow [OF wf _ ap]
  by (cases "s_len s + length xs \<le> s_cap s"; blast)+

section \<open>The field-pair normalizer returns the longest even prefix\<close>

text \<open>
  Claim C7. \<open>pairs\<close> returns the longest even-length prefix of its input: the elements
  of the result are the first elements of the input in their order, the result has even
  length and no even-length prefix is longer; an input of odd length loses exactly its
  last element and an input of even length is returned as it is. \<open>pairs\<close> computes on the
  slice header alone: it neither reads nor writes a backing array.
\<close>

theorem pairs_longest_even_prefix:
  assumes "wf_slice h s"
  shows "even (length (view h (pairs s)))
       \<and> view h (pairs s) = take (length (view h (pairs s))) (view h s)
       \<and> (\<forall>n. even n \<and> n \<le> length (view h s) \<longrightarrow> n \<le> length (view h (pairs s)))
       \<and> (odd (length (view h s)) \<longrightarrow> view h (pairs s) = butlast (view h s))
       \<and> (even (length (view h s)) \<longrightarrow> pairs s = s \<and> view h (pairs s) = view h s)"
proof -
  let ?xs = "view h s"
  have len: "length ?xs = s_len s" using assms by (rule length_view)
  have vp: "view h (pairs s) = take (2 * (length ?xs div 2)) ?xs"
    by (simp add: view_pairs len)
  have l: "length (view h (pairs s)) = 2 * (length ?xs div 2)"
    by (simp add: vp)
  have c1: "even (length (view h (pairs s)))" by (simp add: l)
  have c2: "view h (pairs s) = take (length (view h (pairs s))) ?xs"
    by (simp add: vp)
  have c3: "\<forall>n. even n \<and> n \<le> length ?xs \<longrightarrow> n \<le> length (view h (pairs s))"
    unfolding l by presburger
  have c4: "odd (length ?xs) \<longrightarrow> view h (pairs s) = butlast ?xs"
  proof
    assume "odd (length ?xs)"
    then have "2 * (length ?xs div 2) = length ?xs - 1" by presburger
    then show "view h (pairs s) = butlast ?xs" by (simp add: vp butlast_conv_take)
  qed
  have c5: "even (length ?xs) \<longrightarrow> pairs s = s \<and> view h (pairs s) = ?xs"
  proof
    assume e: "even (length ?xs)"
    then have "s_len s mod 2 \<noteq> 1" unfolding len by presburger
    then show "pairs s = s \<and> view h (pairs s) = ?xs" by (simp add: pairs_def Let_def)
  qed
  from c1 c2 c3 c4 c5 show ?thesis by blast
qed

theorem pairs_longest_even_prefix_witness:
  "wf_slice heap0 (sl 1 3) \<and> view heap0 (sl 1 3) = [VStr ''encore_id'', VStr ''v'', VStr ''odd'']
   \<and> view heap0 (pairs (sl 1 3)) = [VStr ''encore_id'', VStr ''v'']
   \<and> view heap0 (pairs (sl 1 3)) = butlast (view heap0 (sl 1 3))"
proof -
  have wf: "wf_slice heap0 (sl 1 3)" by (simp add: wf_slice_def heap0_def sl_def)
  have v: "view heap0 (sl 1 3) = [VStr ''encore_id'', VStr ''v'', VStr ''odd'']"
    by (simp add: view_def heap0_def sl_def)
  from pairs_longest_even_prefix [OF wf] v wf show ?thesis by simp
qed

section \<open>The trace tag depends on the type only\<close>

text \<open>
  Claim C5. The tag byte that \<open>addTraceBufEntry\<close> writes first is determined by the
  dynamic type of the value, whatever the value, the key and the environment: error 1,
  string 2, bool 3, time 4, duration 5, UUID 6, anything else (and nil) 7, every signed
  integer width 8, every unsigned width 9, float32 10, float64 11.
\<close>

theorem tag_by_type:
  "tag_written E key val =
     Some (case type_of val of
             TError \<Rightarrow> 1 | TString \<Rightarrow> 2 | TBool \<Rightarrow> 3 | TTime \<Rightarrow> 4 | TDuration \<Rightarrow> 5
           | TUUID \<Rightarrow> 6 | TNil \<Rightarrow> 7 | TOther \<Rightarrow> 7
           | TInt8 \<Rightarrow> 8 | TInt16 \<Rightarrow> 8 | TInt32 \<Rightarrow> 8 | TInt64 \<Rightarrow> 8 | TInt \<Rightarrow> 8
           | TUint8 \<Rightarrow> 9 | TUint16 \<Rightarrow> 9 | TUint32 \<Rightarrow> 9 | TUint64 \<Rightarrow> 9 | TUint \<Rightarrow> 9
           | TFloat32 \<Rightarrow> 10 | TFloat64 \<Rightarrow> 11)"
  by (cases val)
     (simp_all add: tag_written_def json_entry_def errType_def strType_def boolType_def
        timeType_def durType_def uuidType_def jsonType_def intType_def uintType_def
        float32Type_def float64Type_def split: sum.splits)

section \<open>The reserved-key guard\<close>

text \<open>
  Claim C1, as stated, fails for the trace buffer: \<open>addTraceBufEntry\<close> writes the key it
  is given, so a reserved key reaches the trace buffer without the escape marker.
\<close>

theorem reserved_key_unescaped_in_trace:
  "reserved ''encore_id''
   \<and> addTraceBufEntry E0 [] ''encore_id'' (VStr ''v'')
       = [tb_Byte 2, tb_String ''encore_id'', tb_String ''v'']
   \<and> key_written E0 ''encore_id'' (VStr ''v'') \<noteq> Some (''x_'' @ ''encore_id'')"
  by (simp add: reserved_def InternalKeyPrefix_def key_written_def strType_def)

text \<open>
  Claim C1, amended. \<open>addEventEntry\<close> and \<open>addContext\<close> add exactly one call to the sink,
  whose key is the original key with \<open>x_\<close> prepended when the key starts with
  \<open>encore_\<close> (so the original key is not what is written) and the original key
  otherwise; \<open>addTraceBufEntry\<close> applies no escape and writes every key as it is given,
  after the tag and before a payload that does not depend on the key.
\<close>

theorem reserved_key_guard:
  "(\<exists>call. ev_fields (addEventEntry E ev key val) = ev_fields ev @ [call]
        \<and> sink_key call = (if reserved key then ''x_'' @ key else key)
        \<and> (reserved key \<longrightarrow> sink_key call \<noteq> key))
   \<and> (\<exists>call. addContext E c key val = c @ [call]
        \<and> sink_key call = (if reserved key then ''x_'' @ key else key)
        \<and> (reserved key \<longrightarrow> sink_key call \<noteq> key))
   \<and> (\<exists>t. addTraceBufEntry E tb key val = tb @ tb_Byte t # tb_String key # payload E val)"
proof -
  have ne: "''x_'' @ key \<noteq> key" by simp
  have a: "\<exists>call. ev_fields (addEventEntry E ev key val) = ev_fields ev @ [call]
        \<and> sink_key call = (if reserved key then ''x_'' @ key else key)
        \<and> (reserved key \<longrightarrow> sink_key call \<noteq> key)"
    using ne by (simp add: addEventEntry_def sink_key_sink_field)
  have b: "\<exists>call. addContext E c key val = c @ [call]
        \<and> sink_key call = (if reserved key then ''x_'' @ key else key)
        \<and> (reserved key \<longrightarrow> sink_key call \<noteq> key)"
    using ne by (simp add: addContext_def sink_key_sink_field)
  have t: "\<exists>t. addTraceBufEntry E tb key val = tb @ tb_Byte t # tb_String key # payload E val"
    using entry_decomp [of E key val] by (auto simp: addTraceBufEntry_append)
  from a b t show ?thesis by blast
qed

theorem reserved_key_guard_witness:
  "reserved ''encore_id''
   \<and> (\<exists>call. ev_fields (addEventEntry E0 (new_event levelInfo []) ''encore_id'' (VStr ''v''))
               = [] @ [call]
             \<and> sink_key call = ''x_encore_id'')
   \<and> (\<exists>call. addContext E0 [] ''encore_id'' (VStr ''v'') = [] @ [call]
             \<and> sink_key call = ''x_encore_id'')"
proof -
  have r: "reserved ''encore_id''"
    by (simp add: reserved_def InternalKeyPrefix_def)
  show ?thesis
    using r reserved_key_guard [of E0 "new_event levelInfo []" "''encore_id''" "VStr ''v''" "[]" "[]"]
    by (simp add: new_event_def) blast
qed

section \<open>The header of a trace record\<close>

text \<open>
  Claim C4. A log call that runs with an active request and an active trace, and whose
  keys are strings, returns and adds one record to the trace. The record starts with
  the span id, the event counter, the level byte, the message and the field count, in
  this order; the count is the number of inherited pairs plus the number of call-site
  pairs (written as a \<open>uint64\<close>), and it precedes the entry of every field.
\<close>

theorem trace_header_and_field_count:
  assumes req: "Req (rt_Current w) = Some req" and tr: "Trace (rt_Current w) = Some tlog"
    and cs: "key_values ctxFields = Some cs" and ls: "key_values logFields = Some ls"
  shows "\<exists>w'. doLog E level ev msg ctxFields logFields w = Returned () w'
          \<and> Trace (rt_Current w') =
              Some (tlog @ [(LogMessage,
                [tb_Bytes (SpanID req), tb_UVarint (ucast (Goctr (rt_Current w))),
                 tb_Byte (level_byte level), tb_String msg,
                 tb_UVarint (of_nat (length cs + length ls))]
                @ entries E cs @ entries E ls @ [tb_Stack (stack_Build E 3)])])"
  by (simp add: doLog_eq [OF cs ls] req tr Let_def header_def)

theorem trace_header_and_field_count_witness:
  "Trace (rt_Current (world_of
      (doLog E0 levelInfo (new_event levelInfo []) ''hi''
         [VStr ''b'', VBool True] [VStr ''a'', VInt 1] (world0 curr_traced)))) =
     Some [(LogMessage,
       [tb_Bytes [1, 2, 3, 4, 5, 6, 7, 8], tb_UVarint 5, tb_Byte 2, tb_String ''hi'',
        tb_UVarint 2,
        tb_Byte 3, tb_String ''b'', tb_Bool True,
        tb_Byte 8, tb_String ''a'', tb_Varint 1,
        tb_Stack [3, 7]])]"
proof -
  have r: "Req (rt_Current (world0 curr_traced)) = Some req0"
    by (simp add: world0_def curr_traced_def)
  have t: "Trace (rt_Current (world0 curr_traced)) = Some []"
    by (simp add: world0_def curr_traced_def)
  have cs: "key_values [VStr ''b'', VBool True :: nat gval] = Some [(''b'', VBool True)]"
    by simp
  have ls: "key_values [VStr ''a'', VInt 1 :: nat gval] = Some [(''a'', VInt 1)]"
    by simp
  have g: "Goctr (rt_Current (world0 curr_traced)) = 5"
    by (simp add: world0_def curr_traced_def)
  from trace_header_and_field_count [OF r t cs ls, of E0 levelInfo "new_event levelInfo []" "''hi''"]
  show ?thesis
    by (auto simp: g entries_def entry_def req0_def E0_def boolType_def intType_def)
qed

section \<open>The JSON fallback\<close>

text \<open>
  Claim C8. For a value whose type is outside the enumerated set (or the nil interface)
  \<open>addTraceBufEntry\<close> writes the JSON tag and the key, then the serialized bytes and a nil
  error when \<open>json.Marshal\<close> succeeds, and an empty payload and the serialization error
  when it fails. Either way the log call that carries the field returns, with the event
  emitted and the entry in its trace record.
\<close>

theorem json_fallback_never_aborts:
  assumes other: "type_of val = TOther \<or> type_of val = TNil"
    and req: "Req (rt_Current w) = Some req" and tr: "Trace (rt_Current w) = Some tlog"
  shows "(case json_Marshal E val of
            Inr data \<Rightarrow>
              addTraceBufEntry E tb key val =
                tb @ [tb_Byte 7, tb_String key, tb_ByteString data, tb_Err None]
          | Inl err \<Rightarrow>
              addTraceBufEntry E tb key val =
                tb @ [tb_Byte 7, tb_String key, tb_ByteString [], tb_Err (Some err)])
       \<and> (\<exists>w'. doLog E level ev msg [] [VStr key, val] w = Returned () w'
             \<and> emitted w' = emitted w @ [(addEventEntry E ev key val, msg)]
             \<and> Trace (rt_Current w') =
                 Some (tlog @ [(LogMessage,
                   addTraceBufEntry E (header req (rt_Current w) level msg 1) key val
                     @ [tb_Stack (stack_Build E 3)])]))"
proof -
  from other have enc: "addTraceBufEntry E tb key val = json_entry E tb key val" for tb
    by (cases val) simp_all
  have first: "case json_Marshal E val of
            Inr data \<Rightarrow>
              addTraceBufEntry E tb key val =
                tb @ [tb_Byte 7, tb_String key, tb_ByteString data, tb_Err None]
          | Inl err \<Rightarrow>
              addTraceBufEntry E tb key val =
                tb @ [tb_Byte 7, tb_String key, tb_ByteString [], tb_Err (Some err)]"
    by (simp add: enc json_entry_def jsonType_def split: sum.splits)
  have kv: "key_values [VStr key, val] = Some [(key, val)]" by simp
  have nil: "key_values ([] :: 'a gval list) = Some []" by simp
  have second: "\<exists>w'. doLog E level ev msg [] [VStr key, val] w = Returned () w'
             \<and> emitted w' = emitted w @ [(addEventEntry E ev key val, msg)]
             \<and> Trace (rt_Current w') =
                 Some (tlog @ [(LogMessage,
                   addTraceBufEntry E (header req (rt_Current w) level msg 1) key val
                     @ [tb_Stack (stack_Build E 3)])])"
    by (simp add: doLog_eq [OF nil kv] req tr Let_def entries_def addEventEntry_eq
        addTraceBufEntry_append)
  from first second show ?thesis by blast
qed

theorem json_fallback_never_aborts_witness:
  "json_Marshal E0 (VOther 0) = Inl \<lparr>Error = ''json: unsupported type'', errs_Stack = []\<rparr>
   \<and> addTraceBufEntry E0 [] ''k'' (VOther 0) =
       [tb_Byte 7, tb_String ''k'', tb_ByteString [],
        tb_Err (Some \<lparr>Error = ''json: unsupported type'', errs_Stack = []\<rparr>)]
   \<and> returned (doLog E0 levelInfo (new_event levelInfo []) ''m'' [] [VStr ''k'', VOther 0]
        (world0 curr_traced))"
proof -
  have o: "type_of (VOther (0::nat)) = TOther \<or> type_of (VOther (0::nat)) = TNil" by simp
  have r: "Req (rt_Current (world0 curr_traced)) = Some req0"
    by (simp add: world0_def curr_traced_def)
  have t: "Trace (rt_Current (world0 curr_traced)) = Some []"
    by (simp add: world0_def curr_traced_def)
  have m: "json_Marshal E0 (VOther 0) = Inl \<lparr>Error = ''json: unsupported type'', errs_Stack = []\<rparr>"
    by (simp add: E0_def)
  from json_fallback_never_aborts [OF o r t, of E0 "[]" "''k''" levelInfo "new_event levelInfo []" "''m''"]
  show ?thesis
    by (auto simp: m)
qed

section \<open>A trace without a request\<close>

text \<open>
  With string keys, a call of \<open>doLog\<close> returns in every state of the current execution
  but one: a trace without a request.
\<close>

lemma doLog_returns_iff:
  assumes cs: "key_values ctxFields = Some cs" and ls: "key_values logFields = Some ls"
  shows "returned (doLog E level ev msg ctxFields logFields w)
           \<longleftrightarrow> \<not> (Req (rt_Current w) = None \<and> Trace (rt_Current w) \<noteq> None)"
  by (simp add: doLog_eq [OF cs ls] Let_def split: option.splits)

text \<open>
  Claim C2 says that a log call with no active request or no active trace does no work
  on a trace buffer and returns normally. \<open>doLog\<close> creates the buffer only when both are
  present, but its last step tests the trace alone: in a run with a trace and no
  request the event is emitted and then \<open>tb.Stack\<close> is called on the nil buffer, so the
  call panics.
\<close>

theorem log_with_trace_but_no_request_panics:
  "Manager_Info E0 ''hi'' (sl 0 2) (world0 curr_trace_only) =
     Panicked NilDereference
       ((world0 curr_trace_only)
          \<lparr>emitted := [(\<lparr>ev_level = levelInfo, ev_context = [], ev_fields = [S_Int ''a'' 1]\<rparr>,
                        ''hi'')]\<rparr>)"
  by (simp add: Manager_Info_def doLog_def pairs_def sl_def view_def world0_def heap0_def
      curr_trace_only_def new_event_def addEventEntry_def reserved_def InternalKeyPrefix_def)

section \<open>Keys must be strings\<close>

lemma addContext_loop_nonstring:
  "2 * i < length xs \<Longrightarrow> assert_string (xs ! (2 * i)) = None \<Longrightarrow>
   addContext_loop E c xs = Inl TypeAssertion"
proof (induction E c xs arbitrary: i rule: addContext_loop.induct)
  case (1 E c)
  then show ?case by simp
next
  case (2 E c k)
  then show ?case by simp
next
  case (3 E c k val rest)
  show ?case
  proof (cases "assert_string k")
    case None
    then show ?thesis by simp
  next
    case (Some key)
    with "3.prems" obtain j where i: "i = Suc j" by (cases i) auto
    with "3.prems" have "2 * j < length rest" "assert_string (rest ! (2 * j)) = None"
      by simp_all
    from "3.IH" [OF Some this] Some show ?thesis by simp
  qed
qed

lemma logFields_loop_nonstring:
  "2 * i < length xs \<Longrightarrow> assert_string (xs ! (2 * i)) = None \<Longrightarrow>
   logFields_loop E ev tb xs = Inl TypeAssertion"
proof (induction E ev tb xs arbitrary: i rule: logFields_loop.induct)
  case (1 E ev tb)
  then show ?case by simp
next
  case (2 E ev tb k)
  then show ?case by simp
next
  case (3 E ev tb k val rest)
  show ?case
  proof (cases "assert_string k")
    case None
    then show ?thesis by simp
  next
    case (Some key)
    with "3.prems" obtain j where i: "i = Suc j" by (cases i) auto
    with "3.prems" have "2 * j < length rest" "assert_string (rest ! (2 * j)) = None"
      by simp_all
    from "3.IH" [OF Some this] Some show ?thesis by simp
  qed
qed

lemma doLog_nonstring:
  assumes "2 * i < length logFields" and "assert_string (logFields ! (2 * i)) = None"
  shows "\<exists>p. doLog E level ev msg ctxFields logFields w = Panicked p w"
    and "doLog E level ev msg [] logFields w = Panicked TypeAssertion w"
  using logFields_loop_nonstring [OF assms]
  by (auto simp: doLog_def Let_def split: option.splits sum.splits)

text \<open>
  Claim C10. When an even-indexed entry of the normalized key/value list is not a
  string, \<open>Manager.With\<close>, \<open>Ctx.With\<close> and every logging operation panic at the type
  assertion of that key; nothing is emitted and no field is skipped or degraded.
\<close>

theorem non_string_key_panics:
  assumes i: "2 * i < length (view (heap w) (pairs kv))"
    and k: "assert_string (view (heap w) (pairs kv) ! (2 * i)) = None"
  shows "Manager_With E kv w = Panicked TypeAssertion w
       \<and> Ctx_With E c kv w = Panicked TypeAssertion w
       \<and> Manager_Debug E msg kv w = Panicked TypeAssertion w
       \<and> Manager_Info E msg kv w = Panicked TypeAssertion w
       \<and> Manager_Warn E msg kv w = Panicked TypeAssertion w
       \<and> Manager_Error E msg kv w = Panicked TypeAssertion w
       \<and> (\<exists>p. Ctx_Debug E c msg kv w = Panicked p w)
       \<and> (\<exists>p. Ctx_Info E c msg kv w = Panicked p w)
       \<and> (\<exists>p. Ctx_Warn E c msg kv w = Panicked p w)
       \<and> (\<exists>p. Ctx_Error E c msg kv w = Panicked p w)"
proof -
  note a = addContext_loop_nonstring [OF i k]
  note d = doLog_nonstring [OF i k]
  have w1: "Manager_With E kv w = Panicked TypeAssertion w"
    by (simp add: Manager_With_def Let_def a)
  have w2: "Ctx_With E c kv w = Panicked TypeAssertion w"
    by (simp add: Ctx_With_def Let_def a)
  have m: "Manager_Debug E msg kv w = Panicked TypeAssertion w"
    "Manager_Info E msg kv w = Panicked TypeAssertion w"
    "Manager_Warn E msg kv w = Panicked TypeAssertion w"
    "Manager_Error E msg kv w = Panicked TypeAssertion w"
    by (simp_all add: Manager_Debug_def Manager_Info_def Manager_Warn_def Manager_Error_def
        Let_def d(2))
  have c: "\<exists>p. Ctx_Debug E c msg kv w = Panicked p w"
    "\<exists>p. Ctx_Info E c msg kv w = Panicked p w"
    "\<exists>p. Ctx_Warn E c msg kv w = Panicked p w"
    "\<exists>p. Ctx_Error E c msg kv w = Panicked p w"
    by (simp_all add: Ctx_Debug_def Ctx_Info_def Ctx_Warn_def Ctx_Error_def Let_def d(1))
  from w1 w2 m c show ?thesis by blast
qed

theorem non_string_key_panics_witness:
  "view (heap (world0 curr_untraced)) (pairs (sl 2 2)) = [VInt 3, VStr ''k'']
   \<and> Manager_With E0 (sl 2 2) (world0 curr_untraced) = Panicked TypeAssertion (world0 curr_untraced)
   \<and> Manager_Info E0 ''m'' (sl 2 2) (world0 curr_untraced)
       = Panicked TypeAssertion (world0 curr_untraced)"
proof -
  have v: "view (heap (world0 curr_untraced)) (pairs (sl 2 2)) = [VInt 3, VStr ''k'']"
    by (simp add: view_def world0_def heap0_def pairs_def sl_def)
  have i: "2 * 0 < length (view (heap (world0 curr_untraced)) (pairs (sl 2 2)))"
    by (simp add: v)
  have k: "assert_string (view (heap (world0 curr_untraced)) (pairs (sl 2 2)) ! (2 * 0)) = None"
    by (simp add: v)
  from non_string_key_panics [OF i k, of E0 _ "''m''"] v show ?thesis by simp
qed

section \<open>Inherited fields and call-site fields\<close>

lemma Manager_With_eq:
  assumes "key_values (view (heap w) (pairs kv)) = Some ns"
  shows "Manager_With E kv w =
     Returned \<lparr>Ctx_ctx = rt_Logger w @ map (sink_entry E) ns, Ctx_fields = pairs kv\<rparr> w"
  by (simp add: Manager_With_def Let_def addContext_loop_Some [OF assms])

text \<open>
  A log call through a \<open>Ctx\<close> whose keys are strings emits one event. It carries the
  sink sub-context of the \<open>Ctx\<close> and, as fields added to the event itself, exactly the
  call-site fields, each once and in order, under the reserved-key guard; no inherited
  field is added to the event again. When a request and a trace are active the trace
  record holds the entries of the inherited fields, as the field list of the \<open>Ctx\<close>
  reads at the call, followed by those of the call-site fields; otherwise the trace is
  left as it was.
\<close>

lemma Ctx_log_outcome:
  assumes cs: "key_values (view (heap w) (Ctx_fields c)) = Some cs"
    and ls: "key_values (view (heap w) (pairs kv)) = Some ls"
  shows "\<forall>(lvl, r) \<in> set [(levelDebug, Ctx_Debug E c msg kv w), (levelInfo, Ctx_Info E c msg kv w),
                         (levelWarn, Ctx_Warn E c msg kv w), (levelError, Ctx_Error E c msg kv w)].
      emitted (world_of r) =
        emitted w @ [(\<lparr>ev_level = lvl, ev_context = Ctx_ctx c,
                       ev_fields = map (sink_entry E) ls\<rparr>, msg)]
    \<and> (case Req (rt_Current w) of
          None \<Rightarrow> Trace (rt_Current (world_of r)) = Trace (rt_Current w)
        | Some req \<Rightarrow>
            (case Trace (rt_Current w) of
               None \<Rightarrow> Trace (rt_Current (world_of r)) = None
             | Some tlog \<Rightarrow>
                 Trace (rt_Current (world_of r)) =
                   Some (tlog @ [(LogMessage,
                     header req (rt_Current w) lvl msg (length cs + length ls)
                       @ entries E cs @ entries E ls @ [tb_Stack (stack_Build E 3)])])))"
proof -
  have one: "emitted (world_of r) =
        emitted w @ [(\<lparr>ev_level = lvl, ev_context = Ctx_ctx c,
                       ev_fields = map (sink_entry E) ls\<rparr>, msg)]
    \<and> (case Req (rt_Current w) of
          None \<Rightarrow> Trace (rt_Current (world_of r)) = Trace (rt_Current w)
        | Some req \<Rightarrow>
            (case Trace (rt_Current w) of
               None \<Rightarrow> Trace (rt_Current (world_of r)) = None
             | Some tlog \<Rightarrow>
                 Trace (rt_Current (world_of r)) =
                   Some (tlog @ [(LogMessage,
                     header req (rt_Current w) lvl msg (length cs + length ls)
                       @ entries E cs @ entries E ls @ [tb_Stack (stack_Build E 3)])])))"
    if r: "r = doLog E lvl (new_event lvl (Ctx_ctx c)) msg
                 (view (heap w) (Ctx_fields c)) (view (heap w) (pairs kv)) w" for lvl r
    unfolding r doLog_eq [OF cs ls]
    by (simp add: Let_def new_event_def split: option.splits)
  show ?thesis
    by (simp add: one Ctx_Debug_def Ctx_Info_def Ctx_Warn_def Ctx_Error_def Let_def)
qed

text \<open>
  Claim C6 concludes that the emitted event shows every inherited field exactly once.
  \<open>doLog\<close> leaves the inherited fields to the sub-context that \<open>With\<close> built and
  encodes for the trace what the field list holds at the call, and \<open>Ctx.With\<close> appends
  to the parent's field list without copying it. Two contexts derived from one parent
  whose slice has spare capacity therefore share the cells behind its length: the
  second \<open>With\<close> overwrites the field that the first one appended. Below, the parent
  comes from \<open>Manager.With\<close> on a slice of length 2 and capacity 4 holding \<open>p\<close>; the
  first child adds \<open>a\<close>, the second \<open>encore_id\<close>. A log call through the first child
  then emits an event with \<open>p\<close> and \<open>a\<close>, while its inherited fields read \<open>p\<close> and
  \<open>encore_id\<close> and the trace record carries those: the event lacks an inherited field
  and the record lacks the field the child was given.
\<close>

theorem sibling_With_replaces_inherited_fields:
  "Manager_With E0 args0 (world0 curr_traced) = Returned parent0 (world0 curr_traced)
   \<and> Ctx_With E0 parent0 (sl 0 2) (world0 curr_traced) = Returned child1 world1
   \<and> Ctx_With E0 parent0 (sl 1 2) world1 = Returned child2 world2
   \<and> view (heap world1) (Ctx_fields child1) = [VStr ''p'', VBool True, VStr ''a'', VInt 1]
   \<and> view (heap world2) (Ctx_fields child1)
       = [VStr ''p'', VBool True, VStr ''encore_id'', VStr ''v'']
   \<and> emitted (world_of (Ctx_Info E0 child1 ''hi'' (sl 0 0) world2))
       = [(\<lparr>ev_level = levelInfo, ev_context = [S_Bool ''p'' True, S_Int ''a'' 1],
            ev_fields = []\<rparr>, ''hi'')]
   \<and> Trace (rt_Current (world_of (Ctx_Info E0 child1 ''hi'' (sl 0 0) world2)))
       = Some [(LogMessage,
           [tb_Bytes [1, 2, 3, 4, 5, 6, 7, 8], tb_UVarint 5, tb_Byte 2, tb_String ''hi'',
            tb_UVarint 2,
            tb_Byte 3, tb_String ''p'', tb_Bool True,
            tb_Byte 2, tb_String ''encore_id'', tb_String ''v'',
            tb_Stack [3, 7]])]"
proof -
  have m: "Manager_With E0 args0 (world0 curr_traced) = Returned parent0 (world0 curr_traced)"
    by (simp add: Manager_With_def Let_def args0_def parent0_def pairs_def view_def world0_def
        heap0_def addContext_def reserved_def InternalKeyPrefix_def)
  have c1: "Ctx_With E0 parent0 (sl 0 2) (world0 curr_traced) = Returned child1 world1"
    by (simp add: Ctx_With_def Let_def parent0_def child1_def world1_def pairs_def sl_def
        view_def world0_def heap0_def append_slice_def addContext_def reserved_def
        InternalKeyPrefix_def)
  have c2: "Ctx_With E0 parent0 (sl 1 2) world1 = Returned child2 world2"
    by (simp add: Ctx_With_def Let_def parent0_def child2_def world1_def world2_def pairs_def
        sl_def view_def world0_def heap0_def append_slice_def addContext_def reserved_def
        InternalKeyPrefix_def)
  have v1: "view (heap world1) (Ctx_fields child1) = [VStr ''p'', VBool True, VStr ''a'', VInt 1]"
    by (simp add: view_def world1_def world0_def heap0_def child1_def)
  have v2: "view (heap world2) (Ctx_fields child1)
       = [VStr ''p'', VBool True, VStr ''encore_id'', VStr ''v'']"
    by (simp add: view_def world2_def world0_def heap0_def child1_def)
  have nil: "view (heap world2) (pairs (sl 0 0)) = []"
    by (simp add: view_def pairs_def sl_def)
  have cur: "rt_Current world2 = curr_traced" "emitted world2 = []"
    by (simp_all add: world2_def world0_def)
  have cc: "Ctx_ctx child1 = [S_Bool ''p'' True, S_Int ''a'' 1]"
    by (simp add: child1_def)
  have sb: "stack_Build E0 3 = [3, 7]"
    by (simp add: E0_def)
  have log: "Ctx_Info E0 child1 ''hi'' (sl 0 0) world2 =
      Returned ()
        (world2\<lparr>emitted := [(\<lparr>ev_level = levelInfo,
                                ev_context = [S_Bool ''p'' True, S_Int ''a'' 1],
                                ev_fields = []\<rparr>, ''hi'')],
                 rt_Current := curr_traced\<lparr>Trace := Some [(LogMessage,
           [tb_Bytes [1, 2, 3, 4, 5, 6, 7, 8], tb_UVarint 5, tb_Byte 2, tb_String ''hi'',
            tb_UVarint 2,
            tb_Byte 3, tb_String ''p'', tb_Bool True,
            tb_Byte 2, tb_String ''encore_id'', tb_String ''v'',
            tb_Stack [3, 7]])]\<rparr>\<rparr>)"
    by (simp add: Ctx_Info_def Let_def v2 nil cur cc sb doLog_def curr_traced_def req0_def
        new_event_def boolType_def strType_def)
  from m c1 c2 v1 v2 show ?thesis
    by (simp add: log)
qed

section \<open>With leaves its receiver as it was\<close>

text \<open>
  Claim C3. \<open>Ctx.With\<close> with string keys returns a new \<open>Ctx\<close>: its field list is the
  parent's field list followed by the normalized new pairs, in order, and its sink
  sub-context is the parent's with the new fields layered on. The parent's field list
  reads as before, also when \<open>append\<close> wrote into the spare capacity of the parent's
  backing array, and the parent's sub-context is a value that nothing changes; the
  logger, the current execution and the emitted events are untouched. A later log call
  through the parent therefore runs the pipeline on the parent's own inherited fields
  and sub-context, without any field of the child.
\<close>

theorem Ctx_With_leaves_parent:
  assumes wfp: "wf_slice (heap w) (Ctx_fields parent)"
    and ns: "key_values (view (heap w) (pairs kv)) = Some ns"
  shows "\<exists>child w'. Ctx_With E parent kv w = Returned child w'
      \<and> view (heap w') (Ctx_fields child)
          = view (heap w) (Ctx_fields parent) @ view (heap w) (pairs kv)
      \<and> Ctx_ctx child = Ctx_ctx parent @ map (sink_entry E) ns
      \<and> view (heap w') (Ctx_fields parent) = view (heap w) (Ctx_fields parent)
      \<and> rt_Logger w' = rt_Logger w \<and> rt_Current w' = rt_Current w \<and> emitted w' = emitted w
      \<and> (\<forall>msg kv2.
            Ctx_Debug E parent msg kv2 w' =
              doLog E levelDebug (new_event levelDebug (Ctx_ctx parent)) msg
                (view (heap w) (Ctx_fields parent)) (view (heap w') (pairs kv2)) w'
          \<and> Ctx_Info E parent msg kv2 w' =
              doLog E levelInfo (new_event levelInfo (Ctx_ctx parent)) msg
                (view (heap w) (Ctx_fields parent)) (view (heap w') (pairs kv2)) w'
          \<and> Ctx_Warn E parent msg kv2 w' =
              doLog E levelWarn (new_event levelWarn (Ctx_ctx parent)) msg
                (view (heap w) (Ctx_fields parent)) (view (heap w') (pairs kv2)) w'
          \<and> Ctx_Error E parent msg kv2 w' =
              doLog E levelError (new_event levelError (Ctx_ctx parent)) msg
                (view (heap w) (Ctx_fields parent)) (view (heap w') (pairs kv2)) w')"
proof -
  let ?old = "Ctx_fields parent"
  let ?xs = "view (heap w) (pairs kv)"
  let ?spare = "growslice_spare E (s_cap ?old) (s_len ?old + s_len (pairs kv))"
  obtain fs' h' where ap: "append_slice ?spare (heap w) ?old ?xs = (fs', h')"
    by (cases "append_slice ?spare (heap w) ?old ?xs")
  let ?child = "\<lparr>Ctx_ctx = Ctx_ctx parent @ map (sink_entry E) ns, Ctx_fields = fs'\<rparr>"
  let ?w' = "w\<lparr>heap := h'\<rparr>"
  have ret: "Ctx_With E parent kv w = Returned ?child ?w'"
    by (simp add: Ctx_With_def Let_def addContext_loop_Some [OF ns] ap)
  note v = append_slice_views [OF wfp ap]
  have logs: "Ctx_Debug E parent msg kv2 ?w' =
              doLog E levelDebug (new_event levelDebug (Ctx_ctx parent)) msg
                (view (heap w) ?old) (view (heap ?w') (pairs kv2)) ?w'"
    "Ctx_Info E parent msg kv2 ?w' =
              doLog E levelInfo (new_event levelInfo (Ctx_ctx parent)) msg
                (view (heap w) ?old) (view (heap ?w') (pairs kv2)) ?w'"
    "Ctx_Warn E parent msg kv2 ?w' =
              doLog E levelWarn (new_event levelWarn (Ctx_ctx parent)) msg
                (view (heap w) ?old) (view (heap ?w') (pairs kv2)) ?w'"
    "Ctx_Error E parent msg kv2 ?w' =
              doLog E levelError (new_event levelError (Ctx_ctx parent)) msg
                (view (heap w) ?old) (view (heap ?w') (pairs kv2)) ?w'" for msg kv2
    by (simp_all add: Ctx_Debug_def Ctx_Info_def Ctx_Warn_def Ctx_Error_def Let_def v(2))
  from ret v(1) v(2) logs show ?thesis by simp
qed

theorem Ctx_With_leaves_parent_witness:
  "Ctx_With E0 parent0 (sl 0 2) (world0 curr_traced) =
     Returned \<lparr>Ctx_ctx = [S_Bool ''p'' True, S_Int ''a'' 1],
               Ctx_fields = \<lparr>s_array = 3, s_off = 0, s_len = 4, s_cap = 4\<rparr>\<rparr>
       ((world0 curr_traced)\<lparr>heap := heap0[3 := [VStr ''p'', VBool True, VStr ''a'', VInt 1]]\<rparr>)
   \<and> view (heap0[3 := [VStr ''p'', VBool True, VStr ''a'', VInt 1]]) (Ctx_fields parent0)
       = [VStr ''p'', VBool True]
   \<and> view heap0 (Ctx_fields parent0) = [VStr ''p'', VBool True]"
proof -
  have wf: "wf_slice (heap (world0 curr_traced)) (Ctx_fields parent0)"
    by (simp add: wf_slice_def world0_def heap0_def parent0_def)
  have ns: "key_values (view (heap (world0 curr_traced)) (pairs (sl 0 2)))
              = Some [(''a'', VInt 1)]"
    by (simp add: view_def world0_def heap0_def pairs_def sl_def)
  have r: "Ctx_With E0 parent0 (sl 0 2) (world0 curr_traced) =
     Returned \<lparr>Ctx_ctx = [S_Bool ''p'' True, S_Int ''a'' 1],
               Ctx_fields = \<lparr>s_array = 3, s_off = 0, s_len = 4, s_cap = 4\<rparr>\<rparr>
       ((world0 curr_traced)\<lparr>heap := heap0[3 := [VStr ''p'', VBool True, VStr ''a'', VInt 1]]\<rparr>)"
    by (simp add: Ctx_With_def Let_def parent0_def pairs_def sl_def view_def world0_def
        heap0_def append_slice_def addContext_def reserved_def InternalKeyPrefix_def)
  have pv: "view heap0 (Ctx_fields parent0) = [VStr ''p'', VBool True]"
    by (simp add: view_def heap0_def parent0_def)
  from Ctx_With_leaves_parent [OF wf ns, of E0] r pv
  show ?thesis
    by (auto simp: world0_def)
qed

text \<open>
  The guarantee is about the receiver. Two contexts derived from the same parent can
  share the spare capacity of its backing array: when \<open>append\<close> works in place for
  both, the second \<open>With\<close> overwrites the fields that the first one appended, while the
  sink sub-context of the first child keeps its own fields. The parent still reads as
  before.
\<close>

lemma children_share_backing_array:
  "\<exists>c1 w1 c2 w2.
      Ctx_With E0 parent0 (sl 0 2) (world0 curr_traced) = Returned c1 w1
    \<and> Ctx_With E0 parent0 (sl 1 2) w1 = Returned c2 w2
    \<and> Ctx_ctx c1 = [S_Bool ''p'' True, S_Int ''a'' 1]
    \<and> view (heap w1) (Ctx_fields c1) = [VStr ''p'', VBool True, VStr ''a'', VInt 1]
    \<and> view (heap w2) (Ctx_fields c1) = [VStr ''p'', VBool True, VStr ''encore_id'', VStr ''v'']
    \<and> view (heap w2) (Ctx_fields parent0) = [VStr ''p'', VBool True]"
  by (simp add: Ctx_With_def Let_def parent0_def pairs_def sl_def view_def world0_def
      heap0_def append_slice_def addContext_def reserved_def InternalKeyPrefix_def)

section \<open>The field encoding can be decoded\<close>

lemma entry_eq:
  "entry E (key, val) = tb_Byte (tag_of_type (type_of val)) # tb_String key # payload E val"
  by (cases val) (simp_all add: entry_def payload_def tag_of_type_def json_entry_def split: sum.splits)

lemma render_append: "render W (a @ b) = render W a @ render W b"
  by (simp add: render_def)

lemma render_Cons: "render W (c # cs) = bytes_of W c @ render W cs"
  by (simp add: render_def)

lemma render_Nil: "render W [] = []"
  by (simp add: render_def)

lemma take_frame_call:
  assumes "wire_ok W R" and "framed c"
  shows "take_frame R (kind_of c) (bytes_of W c @ rest) = Some (bytes_of W c, rest)"
proof (cases "structured (kind_of c)")
  case True
  with assms(1) have "frame R (kind_of c) (W c @ rest) = Some (length (W c))"
    by (simp add: wire_ok_def)
  moreover from True have "bytes_of W c = W c"
    by (cases c) (simp_all add: structured_def)
  ultimately show ?thesis using True
    by (cases "kind_of c") (simp_all add: take_frame_def structured_def)
next
  case False
  then show ?thesis using assms(2)
    by (cases c) (simp_all add: structured_def take_frame_def framed_def)
qed

lemma take_frames_calls:
  assumes "wire_ok W R" and "\<forall>c \<in> set cs. framed c"
  shows "take_frames R (map kind_of cs) (render W cs @ rest) = Some (render W cs, rest)"
  using assms(2)
proof (induction cs)
  case Nil
  then show ?case by (simp add: render_Nil)
next
  case (Cons c cs)
  then show ?case
    by (simp add: render_Cons take_frame_call [OF assms(1)])
qed

lemma payload_framed:
  "wf_val val \<Longrightarrow> \<forall>c \<in> set (payload E val). framed c"
  by (cases val) (simp_all add: payload_def framed_def json_entry_def split: sum.splits)

lemma payload_kinds_tag:
  "payload_kinds (tag_of_type (type_of val)) = Some (map kind_of (payload E val))"
  by (cases val)
     (simp_all add: payload_def payload_kinds_def tag_of_type_def json_entry_def
        errType_def strType_def boolType_def timeType_def durType_def uuidType_def
        jsonType_def intType_def uintType_def float32Type_def float64Type_def
        split: sum.splits)

lemma decode_field_entry:
  assumes ok: "wire_ok W R" and wf: "wf_val val"
  shows "decode_field R (render W (entry E (key, val)) @ rest) =
           Some ((key, tag_of_type (type_of val), render W (payload E val)), rest)"
proof -
  have k: "take_frame R K_String (bytes_of W (tb_String key) @ (render W (payload E val) @ rest))
        = Some (bytes_of W (tb_String key), render W (payload E val) @ rest)"
    using take_frame_call [OF ok, of "tb_String key"] by (simp add: framed_def)
  have rk: "read_String R (W (tb_String key)) = key"
    using ok by (simp add: wire_ok_def)
  have p: "take_frames R (map kind_of (payload E val)) (render W (payload E val) @ rest)
        = Some (render W (payload E val), rest)"
    by (rule take_frames_calls [OF ok payload_framed [OF wf]])
  show ?thesis
    using k
    by (simp add: entry_eq render_Cons decode_field_def payload_kinds_tag [of val E] p rk)
qed

lemma decode_fields_entries:
  assumes ok: "wire_ok W R" and wf: "\<forall>kv \<in> set kvs. wf_val (snd kv)"
  shows "decode_fields R (length kvs) (render W (entries E kvs) @ rest) =
           Some (map (\<lambda>kv. (fst kv, tag_of_type (type_of (snd kv)), render W (payload E (snd kv)))) kvs,
                 rest)"
  using wf
proof (induction kvs)
  case Nil
  then show ?case by (simp add: entries_def render_Nil)
next
  case (Cons kv kvs)
  obtain key val where kv: "kv = (key, val)" by (cases kv)
  from Cons.prems have wfv: "wf_val val" by (simp add: kv)
  have e: "entries E ((key, val) # kvs) = entry E (key, val) @ entries E kvs"
    by (simp add: entries_def)
  from Cons show ?case
    by (simp add: e render_append decode_field_entry [OF ok wfv] kv)
qed

lemma unat_byte_of: "n < 256 \<Longrightarrow> unat (byte_of n) = n"
  unfolding byte_of_def by (rule of_nat_inverse [OF refl]) simp

lemma byte_small: "n < 128 \<Longrightarrow> byte_of n < 128"
  by (simp add: word_less_nat_alt unat_byte_of)

lemma unat_byte_big: "unat (byte_of (n mod 128 + 128)) = n mod 128 + 128"
  by (rule unat_byte_of) simp

lemma byte_big: "\<not> byte_of (n mod 128 + 128) < 128"
  by (simp add: word_less_nat_alt unat_byte_big)

lemma uvarint_len_uvarint: "uvarint_len (uvarint n @ rest) = Some (length (uvarint n))"
proof (induction n rule: uvarint.induct)
  case (1 n)
  show ?case
  proof (cases "n < 128")
    case True
    then show ?thesis by (simp add: uvarint.simps [of n] byte_small)
  next
    case False
    with 1 show ?thesis by (simp add: uvarint.simps [of n] byte_big)
  qed
qed

lemma uvarint_val_uvarint: "uvarint_val (uvarint n @ rest) = Some n"
proof (induction n rule: uvarint.induct)
  case (1 n)
  show ?case
  proof (cases "n < 128")
    case True
    then show ?thesis by (simp add: uvarint.simps [of n] byte_small unat_byte_of)
  next
    case False
    with 1 show ?thesis by (simp add: uvarint.simps [of n] byte_big unat_byte_big)
  qed
qed

lemma length_le_bytes: "length (le_bytes k n) = k"
  by (induction k arbitrary: n) simp_all

lemma prefixed_len_uvarint:
  "prefixed_len (uvarint n @ rest) = Some (length (uvarint n) + n)"
  by (simp add: prefixed_len_def uvarint_len_uvarint uvarint_val_uvarint)

lemma skip_uvarints_concat:
  "skip_uvarints (length xs) (concat (map uvarint xs) @ rest) = Some (length (concat (map uvarint xs)))"
  by (induction xs) (simp_all add: uvarint_len_uvarint)

lemma stack_len_W0:
  "stack_len (uvarint (length s) @ concat (map uvarint s) @ rest)
     = Some (length (uvarint (length s)) + length (concat (map uvarint s)))"
  by (simp add: stack_len_def uvarint_len_uvarint uvarint_val_uvarint skip_uvarints_concat)

lemma char_byte: "char_of (unat (byte_of (of_char c))) = c"
  by (simp add: unat_byte_of)

lemma wire_ok_W0: "wire_ok W0 R0"
proof -
  have f: "frame0 (kind_of c) (W0 c @ rest) = Some (length (W0 c))"
    if "structured (kind_of c)" for c rest
    using that
    by (cases c)
       (simp_all add: structured_def uvarint_len_uvarint prefixed_len_uvarint put_String_def
          stack_len_W0 length_le_bytes)
  have r: "read_String R0 (W0 (tb_String s)) = s" for s
    using uvarint_len_uvarint [of "length s" "map (\<lambda>c. byte_of (of_char c)) s"]
    by (simp add: R0_def put_String_def o_def char_byte)
  from f r show ?thesis by (simp add: wire_ok_def R0_def)
qed

text \<open>
  Claim C9. Let the buffer's byte layout be one that the reader's \<open>frame\<close> and
  \<open>read_String\<close> read back. Then for every list of well-formed fields, decoding the
  bytes of their entries by the tag table recovers for every field, in order, its key,
  its tag and the bytes of its payload, and leaves what follows the entries; and each
  entry is the tag byte, the key as a string and the payload, as \<open>addTraceBufEntry\<close>
  writes it.
\<close>

theorem trace_fields_round_trip:
  assumes ok: "wire_ok W R" and wf: "\<forall>kv \<in> set kvs. wf_val (snd kv)"
  shows "decode_fields R (length kvs) (render W (entries E kvs) @ rest) =
           Some (map (\<lambda>kv. (fst kv, tag_of_type (type_of (snd kv)),
                             render W (payload E (snd kv)))) kvs,
                 rest)
       \<and> (\<forall>kv \<in> set kvs. \<forall>tb.
             addTraceBufEntry E tb (fst kv) (snd kv) =
               tb @ tb_Byte (tag_of_type (type_of (snd kv))) # tb_String (fst kv)
                  # payload E (snd kv))"
proof -
  have "addTraceBufEntry E tb (fst kv) (snd kv) =
          tb @ tb_Byte (tag_of_type (type_of (snd kv))) # tb_String (fst kv) # payload E (snd kv)"
    for kv :: "string \<times> 'a gval" and tb
    using entry_eq [of E "fst kv" "snd kv"] by (simp add: addTraceBufEntry_append)
  with decode_fields_entries [OF ok wf] show ?thesis by blast
qed

theorem trace_fields_round_trip_witness:
  "decode_fields R0 (length kvs0) (render W0 (entries E0 kvs0) @ [255]) =
     Some ([(''a'', 8, [216, 4]),
            (''encore_id'', 2, [1, 118]),
            (''u'', 6, [0, 1, 2, 3, 4, 5, 6, 7, 8, 9, 10, 11, 12, 13, 14, 15]),
            (''e'', 1, [3, 98, 97, 100, 1, 172, 2]),
            (''j'', 7, [0, 22, 106, 115, 111, 110, 58, 32, 117, 110, 115, 117, 112, 112,
                        111, 114, 116, 101, 100, 32, 116, 121, 112, 101])],
           [255])"
proof -
  have wf: "\<forall>kv \<in> set kvs0. wf_val (snd kv)"
    by (simp add: kvs0_def)
  have z: "unat (zigzag 300) = 600"
    by (simp add: zigzag_def)
  have u: "uvarint 600 = [216, 4]" "uvarint 300 = [172, 2]"
    by (simp_all add: uvarint.simps byte_of_def)
  have small: "n < 128 \<Longrightarrow> uvarint n = [byte_of n]" for n
    by (simp add: uvarint.simps)
  have ex: "map (\<lambda>kv. (fst kv, tag_of_type (type_of (snd kv)), render W0 (payload E0 (snd kv)))) kvs0
      = [(''a'', 8, [216, 4]),
         (''encore_id'', 2, [1, 118]),
         (''u'', 6, [0, 1, 2, 3, 4, 5, 6, 7, 8, 9, 10, 11, 12, 13, 14, 15]),
         (''e'', 1, [3, 98, 97, 100, 1, 172, 2]),
         (''j'', 7, [0, 22, 106, 115, 111, 110, 58, 32, 117, 110, 115, 117, 112, 112,
                     111, 114, 116, 101, 100, 32, 116, 121, 112, 101])]"
    by (simp add: kvs0_def tag_of_type_def payload_def render_def json_entry_def E0_def
        errType_def strType_def uuidType_def jsonType_def intType_def
        put_String_def z u small byte_of_def)
  from trace_fields_round_trip [OF wire_ok_W0 wf, of E0 "[255]"] ex
  show ?thesis by simp
qed

end
